theory Spec2Isabelle
  imports Main
begin

section \<open>Python strings and exceptions\<close>

text \<open>
  A Python \<^verbatim>\<open>str\<close> is a \<^typ>\<open>string\<close>; a character is HOL's 8-bit \<^typ>\<open>char\<close>,
  read as one of the code points U+0000 to U+00FF.
\<close>

type_synonym url = string
type_synonym path = string
type_synonym file_id = string

text \<open>
  The exceptions the program can raise. None of them is declared by the program itself:
  \<open>RequestException\<close> is raised by \<^verbatim>\<open>requests.get\<close> when no response is obtained,
  \<open>AttributeError\<close> by \<^verbatim>\<open>None.text\<close>, \<open>TypeError\<close> by \<^verbatim>\<open>None["href"]\<close>,
  \<open>KeyError\<close> by \<^verbatim>\<open>tag["href"]\<close> on a tag without that attribute, and \<open>OSError\<close>
  by \<^verbatim>\<open>open\<close> and by writing to a file.
\<close>

datatype error = RequestException | AttributeError | TypeError | KeyError | OSError

text \<open>The error taxonomy of the specification, read on the exceptions of the code.\<close>

fun is_NetworkError :: "error \<Rightarrow> bool" where
  "is_NetworkError RequestException = True"
| "is_NetworkError _ = False"

fun is_MalformedPageError :: "error \<Rightarrow> bool" where
  "is_MalformedPageError AttributeError = True"
| "is_MalformedPageError TypeError = True"
| "is_MalformedPageError KeyError = True"
| "is_MalformedPageError _ = False"

fun is_IOError :: "error \<Rightarrow> bool" where
  "is_IOError OSError = True"
| "is_IOError _ = False"

text \<open>
  \<^verbatim>\<open>str.isspace\<close> on a single character of the range U+0000 to U+00FF: the ASCII
  white space, the separators U+001C to U+001F, NEL (U+0085) and the no-break space.
\<close>

definition isspace :: "char \<Rightarrow> bool" where
  "isspace c =
     (let n = (of_char c :: nat)
      in (9 \<le> n \<and> n \<le> 13) \<or> (28 \<le> n \<and> n \<le> 32) \<or> n = 133 \<or> n = 160)"

text \<open>\<^verbatim>\<open>str.strip()\<close>: leading and trailing white space removed.\<close>

definition strip :: "string \<Rightarrow> string" where
  "strip s = rev (dropWhile isspace (rev (dropWhile isspace s)))"

section \<open>Parsed documents (bs4)\<close>

text \<open>
  A parsed page is a tree of text nodes and tags. A tag has a name, the list of its CSS
  classes, its other attributes (the items of its attribute dictionary, each key once)
  and its contents in document order.
\<close>

datatype node =
  NavigableString string
| Tag (tag_name: string) (classes: "string list") (attrs: "(string \<times> string) list")
      (contents: "node list")

text \<open>
  \<^verbatim>\<open>BeautifulSoup(page, "html.parser")\<close>: the document object is itself a tag, named
  \<^verbatim>\<open>[document]\<close>, around the top-level nodes. The HTML parser is a library; a response
  body is represented by the top-level nodes it parses to.
\<close>

definition BeautifulSoup :: "node list \<Rightarrow> node" where
  "BeautifulSoup page = Tag ''[document]'' [] [] page"

text \<open>All the nodes below a node, each with its parent, in document order.\<close>

fun descendants :: "node \<Rightarrow> (node \<times> node) list" where
  "descendants (NavigableString s) = []"
| "descendants (Tag n cs as ks) =
     concat (map (\<lambda>k. (Tag n cs as ks, k) # descendants k) ks)"

text \<open>
  The selectors the program uses: \<^verbatim>\<open>.c\<close> (a descendant with class \<open>c\<close>), \<^verbatim>\<open>a\<close>
  (a descendant tag named \<open>a\<close>) and \<^verbatim>\<open>li.next > a\<close> (a tag named \<open>a\<close> whose parent is
  a tag \<open>li\<close> with class \<open>next\<close>).
\<close>

datatype selector =
  ByClass string
| ByName string
| ChildOf string string string

fun has_name :: "string \<Rightarrow> node \<Rightarrow> bool" where
  "has_name n (Tag m cs as ks) = (m = n)"
| "has_name n (NavigableString s) = False"

fun has_class :: "string \<Rightarrow> node \<Rightarrow> bool" where
  "has_class c (Tag m cs as ks) = (c \<in> set cs)"
| "has_class c (NavigableString s) = False"

fun matches :: "selector \<Rightarrow> node \<times> node \<Rightarrow> bool" where
  "matches (ByClass c) (p, k) = has_class c k"
| "matches (ByName n) (p, k) = has_name n k"
| "matches (ChildOf pn pc n) (p, k) = (has_name n k \<and> has_name pn p \<and> has_class pc p)"

text \<open>\<^verbatim>\<open>tag.select(sel)\<close>: the matching descendants, in document order.\<close>

definition select :: "selector \<Rightarrow> node \<Rightarrow> node list" where
  "select sel soup = map snd (filter (matches sel) (descendants soup))"

text \<open>\<^verbatim>\<open>tag.select_one(sel)\<close>: the first match, or \<^verbatim>\<open>None\<close>.\<close>

definition select_one :: "selector \<Rightarrow> node \<Rightarrow> node option" where
  "select_one sel soup = (case select sel soup of [] \<Rightarrow> None | k # ks \<Rightarrow> Some k)"

text \<open>\<^verbatim>\<open>tag[key]\<close>: the attribute's value; \<open>None\<close> stands for the \<^verbatim>\<open>KeyError\<close>.\<close>

definition getitem :: "node \<Rightarrow> string \<Rightarrow> string option" where
  "getitem t key = map_of (attrs t) key"

text \<open>The text pieces below a node, in document order.\<close>

fun strings :: "node \<Rightarrow> string list" where
  "strings (NavigableString s) = [s]"
| "strings (Tag n cs as ks) = concat (map strings ks)"

text \<open>\<^verbatim>\<open>tag.text\<close>, that is \<^verbatim>\<open>tag.get_text()\<close>: all the text pieces, joined.\<close>

definition text_of :: "node \<Rightarrow> string" where
  "text_of t = concat (strings t)"

text \<open>
  \<^verbatim>\<open>tag.get_text(strip=True)\<close>: every text piece is stripped on its own, the empty
  ones are left out, and the rest is joined with the empty separator.
\<close>

definition get_text_strip :: "node \<Rightarrow> string" where
  "get_text_strip t = concat (filter (\<lambda>s. s \<noteq> []) (map strip (strings t)))"

section \<open>Records of the program\<close>

record Quote =
  "text" :: string
  author :: string
  tags :: "string list"

record Author =
  name :: string
  bio :: string

definition BASE_URL :: url where
  "BASE_URL = ''https://quotes.toscrape.com/''"

definition OUTPUT_QUOTES_PATH :: path where
  "OUTPUT_QUOTES_PATH = ''quotes.csv''"

definition OUTPUT_AUTHORS_PATH :: path where
  "OUTPUT_AUTHORS_PATH = ''authors.csv''"

section \<open>The quote extractor\<close>

text \<open>
  \<^verbatim>\<open>parse_single_quote\<close>: \<^verbatim>\<open>select_one(...).text\<close> raises \<^verbatim>\<open>AttributeError\<close> when
  nothing matches; the text is looked up before the author.
\<close>

definition parse_single_quote :: "node \<Rightarrow> error + Quote" where
  "parse_single_quote quote_soup =
     (case select_one (ByClass ''text'') quote_soup of
        None \<Rightarrow> Inl AttributeError
      | Some t \<Rightarrow>
          (case select_one (ByClass ''author'') quote_soup of
             None \<Rightarrow> Inl AttributeError
           | Some a \<Rightarrow>
               Inr \<lparr>text = text_of t, author = text_of a,
                    tags = map get_text_strip (select (ByClass ''tag'') quote_soup)\<rparr>))"

section \<open>The world: network, log and files\<close>

text \<open>
  What \<^verbatim>\<open>requests.get(url)\<close> meets: no response at all (DNS failure, refused
  connection, timeout), or a response with a status code and a body. A site maps each
  URL to what a request for it meets.
\<close>

datatype response = Response (status_code: nat) (content: "node list")

datatype outcome = NoResponse | Reply response

type_synonym site = "url \<Rightarrow> outcome"

text \<open>The lines \<^verbatim>\<open>logging.info\<close> emits (the level is INFO, so \<^verbatim>\<open>logging.debug\<close> emits none).\<close>

datatype log_msg =
  Starting
| FetchingBioNew string
| FetchingBioFrom url
| FetchingPage url
| Finished
| SavingQuotes path
| QuotesSaved path
| SavingAuthors path
| AuthorsSaved path
| AllSaved

fun format_msg :: "log_msg \<Rightarrow> string" where
  "format_msg Starting = ''Starting to scrape all quotes and authors''"
| "format_msg (FetchingBioNew n) = ''Fetching bio for new author: '' @ n"
| "format_msg (FetchingBioFrom u) = ''Fetching bio for author from '' @ u"
| "format_msg (FetchingPage u) = ''Fetching quotes from page '' @ u"
| "format_msg Finished = ''Finished scraping all quotes and authors''"
| "format_msg (SavingQuotes p) = ''Saving quotes to '' @ p"
| "format_msg (QuotesSaved p) = ''Quotes saved to '' @ p"
| "format_msg (SavingAuthors p) = ''Saving authors to '' @ p"
| "format_msg (AuthorsSaved p) = ''Authors saved to '' @ p"
| "format_msg AllSaved = ''Quotes and authors saved successfully''"

datatype event = Request url | Info log_msg

text \<open>
  The state the program acts on: the requests sent and the lines logged so far (oldest
  first), what each file holds, for the file operations still to come whether each
  fails (the head is the next operation; past the end of the list none fails), and the
  file that each path names. Two paths can name the same file (\<^verbatim>\<open>authors.csv\<close> and
  \<^verbatim>\<open>./authors.csv\<close>); the program does not change which file a path names.
\<close>

record world =
  trace :: "event list"
  files :: "file_id \<Rightarrow> string option"
  faults :: "bool list"
  file_of :: "path \<Rightarrow> file_id"

text \<open>What the file that a path names holds.\<close>

definition read_file :: "world \<Rightarrow> path \<Rightarrow> string option" where
  "read_file w p = files w (file_of w p)"

definition logging_info :: "log_msg \<Rightarrow> world \<Rightarrow> world" where
  "logging_info m w = w\<lparr>trace := trace w @ [Info m]\<rparr>"

text \<open>
  \<^verbatim>\<open>requests.get(url)\<close>: one request is sent; without a response the call raises, and
  any response is returned, whatever its status code.
\<close>

definition requests_get :: "site \<Rightarrow> url \<Rightarrow> world \<Rightarrow> (error + response) \<times> world" where
  "requests_get web u w =
     (let w' = w\<lparr>trace := trace w @ [Request u]\<rparr>
      in case web u of
           NoResponse \<Rightarrow> (Inl RequestException, w')
         | Reply resp \<Rightarrow> (Inr resp, w'))"

section \<open>The author extractor\<close>

definition parse_author_bio :: "site \<Rightarrow> string \<Rightarrow> world \<Rightarrow> (error + Author) \<times> world" where
  "parse_author_bio web author_url w =
     (case requests_get web (BASE_URL @ author_url)
             (logging_info (FetchingBioFrom (BASE_URL @ author_url)) w) of
        (Inl e, w') \<Rightarrow> (Inl e, w')
      | (Inr resp, w') \<Rightarrow>
          (let author_soup = BeautifulSoup (content resp)
           in case select_one (ByClass ''author-title'') author_soup of
                None \<Rightarrow> (Inl AttributeError, w')
              | Some t \<Rightarrow>
                  (case select_one (ByClass ''author-description'') author_soup of
                     None \<Rightarrow> (Inl AttributeError, w')
                   | Some d \<Rightarrow>
                       (Inr \<lparr>name = strip (text_of t), bio = strip (text_of d)\<rparr>, w'))))"

section \<open>The page walker\<close>

text \<open>
  The author registry is a Python dictionary: it keeps its keys in the order of their
  first insertion, so it is the list of its items.
\<close>

type_synonym registry = "(string \<times> Author) list"

text \<open>
  The loop of \<^verbatim>\<open>get_single_page_quotes\<close> over the quote blocks still to visit.
  \<^verbatim>\<open>select_one("a")["href"]\<close> is evaluated for every block, before the registry is
  looked at: \<^verbatim>\<open>TypeError\<close> without a link, \<^verbatim>\<open>KeyError\<close> without its \<^verbatim>\<open>href\<close>.
\<close>

fun quotes_loop ::
  "site \<Rightarrow> node list \<Rightarrow> Quote list \<Rightarrow> registry \<Rightarrow> world
     \<Rightarrow> (error + Quote list \<times> registry) \<times> world" where
  "quotes_loop web [] quotes_list authors w = (Inr (quotes_list, authors), w)"
| "quotes_loop web (quote_soup # rest) quotes_list authors w =
     (case parse_single_quote quote_soup of
        Inl e \<Rightarrow> (Inl e, w)
      | Inr q \<Rightarrow>
          (case select_one (ByName ''a'') quote_soup of
             None \<Rightarrow> (Inl TypeError, w)
           | Some a \<Rightarrow>
               (case getitem a ''href'' of
                  None \<Rightarrow> (Inl KeyError, w)
                | Some author_url \<Rightarrow>
                    if author q \<notin> set (map fst authors) then
                      (case parse_author_bio web author_url
                              (logging_info (FetchingBioNew (author q)) w) of
                         (Inl e, w') \<Rightarrow> (Inl e, w')
                       | (Inr au, w') \<Rightarrow>
                           quotes_loop web rest (quotes_list @ [q])
                             (authors @ [(author q, au)]) w')
                    else quotes_loop web rest (quotes_list @ [q]) authors w)))"

definition get_single_page_quotes ::
  "site \<Rightarrow> node \<Rightarrow> registry \<Rightarrow> world \<Rightarrow> (error + Quote list \<times> registry) \<times> world" where
  "get_single_page_quotes web page_soup authors w =
     quotes_loop web (select (ByClass ''quote'') page_soup) [] authors w"

section \<open>The crawl\<close>

text \<open>
  The \<^verbatim>\<open>while next_button:\<close> loop of \<^verbatim>\<open>get_all_quotes_and_authors\<close>. A tag is always
  true, so the loop runs until \<^verbatim>\<open>select_one\<close> gives \<^verbatim>\<open>None\<close>. Nothing bounds the
  loop: a run that does not return is the value \<open>None\<close>.
\<close>

partial_function (option) crawl_loop ::
  "site \<Rightarrow> node option \<Rightarrow> Quote list \<Rightarrow> registry \<Rightarrow> world
     \<Rightarrow> ((error + Quote list \<times> registry) \<times> world) option" where
  "crawl_loop web next_button all_quotes authors w =
     (case next_button of
        None \<Rightarrow> Some (Inr (all_quotes, authors), w)
      | Some button \<Rightarrow>
          (case getitem button ''href'' of
             None \<Rightarrow> Some (Inl KeyError, w)
           | Some href \<Rightarrow>
               (case requests_get web (BASE_URL @ href)
                       (logging_info (FetchingPage (BASE_URL @ href)) w) of
                  (Inl e, w') \<Rightarrow> Some (Inl e, w')
                | (Inr resp, w') \<Rightarrow>
                    (case get_single_page_quotes web (BeautifulSoup (content resp)) authors w' of
                       (Inl e, w'') \<Rightarrow> Some (Inl e, w'')
                     | (Inr (qs, authors'), w'') \<Rightarrow>
                         crawl_loop web
                           (select_one (ChildOf ''li'' ''next'' ''a'') (BeautifulSoup (content resp)))
                           (all_quotes @ qs) authors' w''))))"

declare crawl_loop.simps [code]

definition get_all_quotes_and_authors ::
  "site \<Rightarrow> world \<Rightarrow> ((error + Quote list \<times> registry) \<times> world) option" where
  "get_all_quotes_and_authors web w =
     (case requests_get web BASE_URL (logging_info Starting w) of
        (Inl e, w') \<Rightarrow> Some (Inl e, w')
      | (Inr resp, w') \<Rightarrow>
          (case get_single_page_quotes web (BeautifulSoup (content resp)) [] w' of
             (Inl e, w'') \<Rightarrow> Some (Inl e, w'')
           | (Inr (qs, authors), w'') \<Rightarrow>
               (case crawl_loop web
                       (select_one (ChildOf ''li'' ''next'' ''a'') (BeautifulSoup (content resp)))
                       ([] @ qs) authors w'' of
                  None \<Rightarrow> None
                | Some (Inl e, w3) \<Rightarrow> Some (Inl e, w3)
                | Some (Inr r, w3) \<Rightarrow> Some (Inr r, logging_info Finished w3))))"

section \<open>The serializer\<close>

text \<open>\<^verbatim>\<open>sep.join(xs)\<close>.\<close>

fun join :: "string \<Rightarrow> string list \<Rightarrow> string" where
  "join sep [] = []"
| "join sep [x] = x"
| "join sep (x # y # ys) = x @ sep @ join sep (y # ys)"

text \<open>
  \<^verbatim>\<open>str.isprintable\<close> on a character of the range U+0000 to U+00FF: not the control
  characters, the no-break space or the soft hyphen.
\<close>

definition isprintable :: "char \<Rightarrow> bool" where
  "isprintable c =
     (let n = (of_char c :: nat)
      in (32 \<le> n \<and> n \<le> 126) \<or> (161 \<le> n \<and> n \<le> 172) \<or> 174 \<le> n)"

definition hex_digit :: "nat \<Rightarrow> char" where
  "hex_digit n = ''0123456789abcdef'' ! (n mod 16)"

text \<open>One character of \<^verbatim>\<open>repr(s)\<close>, between quotes \<open>q\<close>.\<close>

definition repr_char :: "char \<Rightarrow> char \<Rightarrow> string" where
  "repr_char q c =
     (if c = q \<or> c = CHR 0x5C then [CHR 0x5C, c]
      else if c = CHR 0x09 then [CHR 0x5C, CHR ''t'']
      else if c = CHR 0x0A then [CHR 0x5C, CHR ''n'']
      else if c = CHR 0x0D then [CHR 0x5C, CHR ''r'']
      else if \<not> isprintable c then
        [CHR 0x5C, CHR ''x'', hex_digit (of_char c div 16), hex_digit (of_char c)]
      else [c])"

text \<open>
  \<^verbatim>\<open>repr(s)\<close> of a string: in single quotes, or in double quotes when the string has
  a single quote and no double quote.
\<close>

definition repr :: "string \<Rightarrow> string" where
  "repr s =
     (let q = (if CHR 0x27 \<in> set s \<and> CHR 0x22 \<notin> set s then CHR 0x22 else CHR 0x27)
      in q # concat (map (repr_char q) s) @ [q])"

text \<open>\<^verbatim>\<open>str(xs)\<close> of a list of strings: the list literal.\<close>

definition str_list :: "string list \<Rightarrow> string" where
  "str_list xs = ''['' @ join '', '' (map repr xs) @ '']''"

text \<open>
  A value handed to \<^verbatim>\<open>writer.writerow\<close>: a string is written as it is, anything else
  as its \<^verbatim>\<open>str()\<close>.
\<close>

datatype cell = Str string | StrList "string list"

fun cell_str :: "cell \<Rightarrow> string" where
  "cell_str (Str s) = s"
| "cell_str (StrList xs) = str_list xs"

text \<open>
  \<^verbatim>\<open>csv.writer\<close> with its default dialect: fields joined by commas, a field with a
  comma, a double quote, a carriage return or a line feed is put in double quotes with
  its double quotes doubled, a row of one empty field is written as two double quotes,
  and a row ends with CR LF.
\<close>

definition csv_special :: "char \<Rightarrow> bool" where
  "csv_special c = (c = CHR '','' \<or> c = CHR 0x22 \<or> c = CHR 0x0D \<or> c = CHR 0x0A)"

definition csv_field :: "string \<Rightarrow> string" where
  "csv_field f =
     (if list_ex csv_special f
      then CHR 0x22 # concat (map (\<lambda>c. if c = CHR 0x22 then [c, c] else [c]) f) @ [CHR 0x22]
      else f)"

definition csv_row :: "string list \<Rightarrow> string" where
  "csv_row fs =
     (if fs = [[]] then [CHR 0x22, CHR 0x22] else join '','' (map csv_field fs))
     @ [CHR 0x0D, CHR 0x0A]"

text \<open>Whether the next file operation fails.\<close>

definition next_fault :: "world \<Rightarrow> bool \<times> world" where
  "next_fault w = (case faults w of [] \<Rightarrow> (False, w) | b # bs \<Rightarrow> (b, w\<lparr>faults := bs\<rparr>))"

text \<open>
  \<^verbatim>\<open>open(path, mode="w")\<close>: the file that the path names is created or truncated and
  is the file the handle writes to, or the call raises.
\<close>

definition open_w :: "path \<Rightarrow> world \<Rightarrow> (error + file_id) \<times> world" where
  "open_w p w =
     (case next_fault w of
        (True, w') \<Rightarrow> (Inl OSError, w')
      | (False, w') \<Rightarrow> (Inr (file_of w' p), w'\<lparr>files := (files w')(file_of w' p \<mapsto> [])\<rparr>))"

text \<open>
  Writing to the open file: the data is appended, or the write raises. A failure that
  comes only when the file is flushed or closed is the failure of the write whose data
  did not reach the file.
\<close>

definition file_write :: "file_id \<Rightarrow> string \<Rightarrow> world \<Rightarrow> (error + unit) \<times> world" where
  "file_write f s w =
     (case next_fault w of
        (True, w') \<Rightarrow> (Inl OSError, w')
      | (False, w') \<Rightarrow>
          (Inr (), w'\<lparr>files := (files w')(f \<mapsto> (case files w' f of None \<Rightarrow> s | Some old \<Rightarrow> old @ s))\<rparr>))"

definition writerow :: "file_id \<Rightarrow> cell list \<Rightarrow> world \<Rightarrow> (error + unit) \<times> world" where
  "writerow f row w = file_write f (csv_row (map cell_str row)) w"

text \<open>\<^verbatim>\<open>for row in rows: writer.writerow(row)\<close>.\<close>

fun writerows :: "file_id \<Rightarrow> cell list list \<Rightarrow> world \<Rightarrow> (error + unit) \<times> world" where
  "writerows f [] w = (Inr (), w)"
| "writerows f (row # rows) w =
     (case writerow f row w of
        (Inl e, w') \<Rightarrow> (Inl e, w')
      | (Inr u, w') \<Rightarrow> writerows f rows w')"

definition quote_row :: "Quote \<Rightarrow> cell list" where
  "quote_row q = [Str (text q), Str (author q), StrList (tags q)]"

definition author_row :: "Author \<Rightarrow> cell list" where
  "author_row a = [Str (name a), Str (bio a)]"

definition save_quotes_to_csv :: "Quote list \<Rightarrow> path \<Rightarrow> world \<Rightarrow> (error + unit) \<times> world" where
  "save_quotes_to_csv quotes output_csv_path w =
     (case open_w output_csv_path (logging_info (SavingQuotes output_csv_path) w) of
        (Inl e, w') \<Rightarrow> (Inl e, w')
      | (Inr file, w') \<Rightarrow>
          (case writerow file [Str ''text'', Str ''author'', Str ''tags''] w' of
             (Inl e, w'') \<Rightarrow> (Inl e, w'')
           | (Inr u, w'') \<Rightarrow>
               (case writerows file (map quote_row quotes) w'' of
                  (Inl e, w3) \<Rightarrow> (Inl e, w3)
                | (Inr u, w3) \<Rightarrow> (Inr (), logging_info (QuotesSaved output_csv_path) w3))))"

text \<open>\<^verbatim>\<open>authors.values()\<close>: the values in the order of the dictionary.\<close>

definition save_authors_to_csv :: "registry \<Rightarrow> path \<Rightarrow> world \<Rightarrow> (error + unit) \<times> world" where
  "save_authors_to_csv authors output_csv_path w =
     (case open_w output_csv_path (logging_info (SavingAuthors output_csv_path) w) of
        (Inl e, w') \<Rightarrow> (Inl e, w')
      | (Inr file, w') \<Rightarrow>
          (case writerow file [Str ''name'', Str ''bio''] w' of
             (Inl e, w'') \<Rightarrow> (Inl e, w'')
           | (Inr u, w'') \<Rightarrow>
               (case writerows file (map (author_row \<circ> snd) authors) w'' of
                  (Inl e, w3) \<Rightarrow> (Inl e, w3)
                | (Inr u, w3) \<Rightarrow> (Inr (), logging_info (AuthorsSaved output_csv_path) w3))))"

section \<open>The entry point\<close>

definition main :: "site \<Rightarrow> path \<Rightarrow> world \<Rightarrow> ((error + unit) \<times> world) option" where
  "main web output_quotes_csv_path w =
     (case get_all_quotes_and_authors web w of
        None \<Rightarrow> None
      | Some (Inl e, w') \<Rightarrow> Some (Inl e, w')
      | Some (Inr (quotes, authors), w') \<Rightarrow>
          (case save_quotes_to_csv quotes output_quotes_csv_path w' of
             (Inl e, w'') \<Rightarrow> Some (Inl e, w'')
           | (Inr u, w'') \<Rightarrow>
               (case save_authors_to_csv authors OUTPUT_AUTHORS_PATH w'' of
                  (Inl e, w3) \<Rightarrow> Some (Inl e, w3)
                | (Inr u, w3) \<Rightarrow> Some (Inr (), logging_info AllSaved w3))))"

section \<open>Reading a run\<close>

text \<open>The author names for which a biography fetch was started, in order.\<close>

fun new_author_names :: "event list \<Rightarrow> string list" where
  "new_author_names [] = []"
| "new_author_names (Info (FetchingBioNew n) # es) = n # new_author_names es"
| "new_author_names (e # es) = new_author_names es"

text \<open>The URLs requested, in order.\<close>

fun requests :: "event list \<Rightarrow> url list" where
  "requests [] = []"
| "requests (Request u # es) = u # requests es"
| "requests (e # es) = requests es"

text \<open>The listing pages the loop went on to, in order.\<close>

fun listing_urls :: "event list \<Rightarrow> url list" where
  "listing_urls [] = []"
| "listing_urls (Info (FetchingPage u) # es) = u # listing_urls es"
| "listing_urls (e # es) = listing_urls es"

text \<open>
  The order of first encounter: the names \<open>seen\<close> so far, followed by the names of
  \<open>xs\<close> not seen before, each where it first occurs.
\<close>

fun encounter_order :: "string list \<Rightarrow> string list \<Rightarrow> string list" where
  "encounter_order seen [] = seen"
| "encounter_order seen (x # xs) =
     (if x \<in> set seen then encounter_order seen xs else encounter_order (seen @ [x]) xs)"

text \<open>
  A finite chain of listing pages: from the next-page link \<open>nb\<close> of the current page
  (if any), the pages that follow, each with the URL it is requested at, up to a page
  with no next-page link.
\<close>

fun chain_from :: "site \<Rightarrow> node option \<Rightarrow> (url \<times> node) list \<Rightarrow> bool" where
  "chain_from web None pages = (pages = [])"
| "chain_from web (Some button) [] = False"
| "chain_from web (Some button) ((u, soup) # pages) =
     (case getitem button ''href'' of
        None \<Rightarrow> False
      | Some href \<Rightarrow>
          u = BASE_URL @ href \<and>
          (case web u of
             NoResponse \<Rightarrow> False
           | Reply resp \<Rightarrow>
               soup = BeautifulSoup (content resp) \<and>
               chain_from web (select_one (ChildOf ''li'' ''next'' ''a'') soup) pages))"

definition pagination_chain :: "site \<Rightarrow> node \<Rightarrow> (url \<times> node) list \<Rightarrow> bool" where
  "pagination_chain web soup pages =
     chain_from web (select_one (ChildOf ''li'' ''next'' ''a'') soup) pages"

text \<open>
  The first pages of the pagination: like a chain, but the last page listed may have a
  next-page link of its own, so the pagination need not end.
\<close>

fun chain_prefix :: "site \<Rightarrow> node option \<Rightarrow> (url \<times> node) list \<Rightarrow> bool" where
  "chain_prefix web nb [] = True"
| "chain_prefix web None (page # pages) = False"
| "chain_prefix web (Some button) ((u, soup) # pages) =
     (case getitem button ''href'' of
        None \<Rightarrow> False
      | Some href \<Rightarrow>
          u = BASE_URL @ href \<and>
          (case web u of
             NoResponse \<Rightarrow> False
           | Reply resp \<Rightarrow>
               soup = BeautifulSoup (content resp) \<and>
               chain_prefix web (select_one (ChildOf ''li'' ''next'' ''a'') soup) pages))"

text \<open>The next-page link that the loop holds after the pages listed.\<close>

definition next_after :: "node option \<Rightarrow> (url \<times> node) list \<Rightarrow> node option" where
  "next_after nb pages =
     (if pages = [] then nb else select_one (ChildOf ''li'' ''next'' ''a'') (snd (last pages)))"

text \<open>The quote blocks of a sequence of listing pages, in the order of the crawl.\<close>

definition quote_blocks :: "node list \<Rightarrow> node list" where
  "quote_blocks soups = concat (map (select (ByClass ''quote'')) soups)"

text \<open>Whether the quote extractor finds the author name \<open>k\<close> in a block.\<close>

definition names_author :: "string \<Rightarrow> node \<Rightarrow> bool" where
  "names_author k b = (case parse_single_quote b of Inl e \<Rightarrow> False | Inr q \<Rightarrow> author q = k)"

text \<open>The quote blocks of a listing page, each put through the quote extractor.\<close>

definition page_quotes :: "node \<Rightarrow> (error + Quote) list" where
  "page_quotes soup = map parse_single_quote (select (ByClass ''quote'') soup)"

text \<open>
  A quote block without one of the elements the walker reads: the text element, the
  author element, a link, or the link's \<^verbatim>\<open>href\<close>.
\<close>

definition malformed_quote :: "node \<Rightarrow> bool" where
  "malformed_quote b =
     (select_one (ByClass ''text'') b = None \<or> select_one (ByClass ''author'') b = None \<or>
      (case select_one (ByName ''a'') b of None \<Rightarrow> True | Some a \<Rightarrow> getitem a ''href'' = None))"

text \<open>Whether a request for the URL gets a response, of whatever status.\<close>

definition answered :: "site \<Rightarrow> url \<Rightarrow> bool" where
  "answered web u = (case web u of NoResponse \<Rightarrow> False | Reply resp \<Rightarrow> True)"

text \<open>
  The requests \<open>rs\<close> of a run that stops at the first request without a response: if the
  run \<open>failed\<close> with the exception of \<^verbatim>\<open>requests\<close>, its last request got no response
  and all the requests before it did; otherwise every request got a response.
\<close>

definition stops_at_first_failure :: "site \<Rightarrow> url list \<Rightarrow> bool \<Rightarrow> bool" where
  "stops_at_first_failure web rs failed =
     (if failed
      then rs \<noteq> [] \<and> \<not> answered web (last rs) \<and> list_all (answered web) (butlast rs)
      else list_all (answered web) rs)"

section \<open>Reference resolution\<close>

text \<open>
  What resolving a link against a base URL means (RFC 3986, section 5.2), for a base
  of the form \<^verbatim>\<open>scheme://authority/path\<close>; dot segments are left as they are. A link with
  a scheme stands for itself, a link that starts with two slashes takes the scheme of
  the base, a link that starts with one slash replaces the path of the base, an empty
  link or a fragment keeps the path and the query of the base, a query keeps the path, and any other link replaces the
  last segment of the path of the base.
\<close>

definition url_scheme :: "url \<Rightarrow> string" where
  "url_scheme u = takeWhile (\<lambda>c. c \<noteq> CHR '':'') u"

definition url_authority :: "url \<Rightarrow> string" where
  "url_authority u = takeWhile (\<lambda>c. c \<notin> set ''/?#'') (drop (length (url_scheme u) + 3) u)"

definition url_path :: "url \<Rightarrow> string" where
  "url_path u =
     takeWhile (\<lambda>c. c \<notin> set ''?#'')
       (drop (length (url_scheme u) + 3 + length (url_authority u)) u)"

definition url_query :: "url \<Rightarrow> string" where
  "url_query u =
     takeWhile (\<lambda>c. c \<noteq> CHR ''#'')
       (drop (length (url_scheme u) + 3 + length (url_authority u) + length (url_path u)) u)"

definition has_scheme :: "string \<Rightarrow> bool" where
  "has_scheme r =
     (let s = takeWhile (\<lambda>c. c \<notin> set '':/?#'') r
      in s \<noteq> [] \<and> take 1 (drop (length s) r) = '':'')"

definition merge_paths :: "string \<Rightarrow> string \<Rightarrow> string" where
  "merge_paths base_path r =
     (if base_path = [] then ''/'' @ r
      else rev (dropWhile (\<lambda>c. c \<noteq> CHR ''/'') (rev base_path)) @ r)"

definition resolve_reference :: "url \<Rightarrow> string \<Rightarrow> url" where
  "resolve_reference base r =
     (if has_scheme r then r
      else if take 2 r = ''//'' then url_scheme base @ '':'' @ r
      else if take 1 r = ''/'' then url_scheme base @ ''://'' @ url_authority base @ r
      else if take 1 r = ''?''
        then url_scheme base @ ''://'' @ url_authority base @ url_path base @ r
      else if r = [] \<or> take 1 r = ''#''
        then url_scheme base @ ''://'' @ url_authority base @ url_path base @ url_query base @ r
      else url_scheme base @ ''://'' @ url_authority base @ merge_paths (url_path base) r)"

section \<open>A two-page site\<close>

text \<open>
  A site of two listing pages: quotes by A and B on the first page, by B and C on the
  second, and one biography page per author.
\<close>

definition quote_block :: "string \<Rightarrow> string \<Rightarrow> string \<Rightarrow> string list \<Rightarrow> node" where
  "quote_block t a href tgs =
     Tag ''div'' [''quote''] []
       ([Tag ''span'' [''text''] [] [NavigableString t],
         Tag ''small'' [''author''] [] [NavigableString a],
         Tag ''a'' [] [(''href'', href)] [NavigableString ''(about)'']]
        @ map (\<lambda>g. Tag ''a'' [''tag''] [(''href'', ''/tag/'' @ g)] [NavigableString g]) tgs)"

definition next_nav :: "string \<Rightarrow> node" where
  "next_nav href = Tag ''li'' [''next''] [] [Tag ''a'' [] [(''href'', href)] [NavigableString ''Next'']]"

definition bio_page :: "string \<Rightarrow> string \<Rightarrow> node list" where
  "bio_page n d = [Tag ''h3'' [''author-title''] [] [NavigableString n],
                   Tag ''div'' [''author-description''] [] [NavigableString d]]"

definition page1 :: "node list" where
  "page1 = [quote_block ''q1'' ''A'' ''/author/A'' [''x'', ''y''],
            quote_block ''q2'' ''B'' ''/author/B'' [], next_nav ''/page/2/'']"

definition page2 :: "node list" where
  "page2 = [quote_block ''q3'' ''B'' ''/author/B'' [''z''],
            quote_block ''q4'' ''C'' ''/author/C'' []]"

definition demo_site :: site where
  "demo_site u =
     (if u = BASE_URL then Reply (Response 200 page1)
      else if u = BASE_URL @ ''/page/2/'' then Reply (Response 200 page2)
      else if u = BASE_URL @ ''/author/A'' then Reply (Response 200 (bio_page ''A. '' ''bio of A''))
      else if u = BASE_URL @ ''/author/B'' then Reply (Response 200 (bio_page ''B'' ''bio of B''))
      else if u = BASE_URL @ ''/author/C'' then Reply (Response 200 (bio_page ''C'' ''bio of C''))
      else Reply (Response 404 []))"

text \<open>
  A world with nothing logged, no file and no failure to come, in which a path names the
  same file with and without a leading \<^verbatim>\<open>./\<close>.
\<close>

definition plain_path :: "path \<Rightarrow> file_id" where
  "plain_path p = (if take 2 p = ''./'' then drop 2 p else p)"

definition w0 :: world where
  "w0 = \<lparr>trace = [], files = (\<lambda>f. None), faults = [], file_of = plain_path\<rparr>"

definition demo_quotes :: "Quote list" where
  "demo_quotes = [\<lparr>text = ''q1'', author = ''A'', tags = [''x'', ''y'']\<rparr>,
         \<lparr>text = ''q2'', author = ''B'', tags = []\<rparr>,
         \<lparr>text = ''q3'', author = ''B'', tags = [''z'']\<rparr>,
         \<lparr>text = ''q4'', author = ''C'', tags = []\<rparr>]"

definition demo_registry :: registry where
  "demo_registry = [(''A'', \<lparr>name = ''A.'', bio = ''bio of A''\<rparr>),
         (''B'', \<lparr>name = ''B'', bio = ''bio of B''\<rparr>),
         (''C'', \<lparr>name = ''C'', bio = ''bio of C''\<rparr>)]"

definition demo_trace :: "event list" where
  "demo_trace = [Info Starting, Request ''https://quotes.toscrape.com/'',
    Info (FetchingBioNew ''A''),
    Info (FetchingBioFrom ''https://quotes.toscrape.com//author/A''),
    Request ''https://quotes.toscrape.com//author/A'',
    Info (FetchingBioNew ''B''),
    Info (FetchingBioFrom ''https://quotes.toscrape.com//author/B''),
    Request ''https://quotes.toscrape.com//author/B'',
    Info (FetchingPage ''https://quotes.toscrape.com//page/2/''),
    Request ''https://quotes.toscrape.com//page/2/'',
    Info (FetchingBioNew ''C''),
    Info (FetchingBioFrom ''https://quotes.toscrape.com//author/C''),
    Request ''https://quotes.toscrape.com//author/C'', Info Finished]"

text \<open>What a table written by the csv writer holds.\<close>

definition csv_text :: "cell list list \<Rightarrow> string" where
  "csv_text rows = concat (map (\<lambda>row. csv_row (map cell_str row)) rows)"

text \<open>A quote block whose only tag element has markup inside.\<close>

definition nested_tag_block :: node where
  "nested_tag_block =
     Tag ''div'' [''quote''] []
       [Tag ''span'' [''text''] [] [NavigableString ''t''],
        Tag ''small'' [''author''] [] [NavigableString ''A''],
        Tag ''a'' [] [(''href'', ''/author/A'')] [NavigableString ''(about)''],
        Tag ''a'' [''tag''] []
          [NavigableString ''deep '', Tag ''b'' [] [] [NavigableString '' thoughts'']]]"

text \<open>A quote block with white space around its text, its author and its tags.\<close>

definition spaced_block :: node where
  "spaced_block = quote_block '' t '' '' A '' ''/author/A'' ['' x '', ''y '']"

text \<open>A world in which the quotes file already exists.\<close>

definition w_old :: world where
  "w_old = \<lparr>trace = [], files = (\<lambda>f. if f = ''quotes.csv'' then Some ''stale'' else None),
            faults = [], file_of = plain_path\<rparr>"

text \<open>A site that answers every request with status 404 and an empty body.\<close>

definition site_404 :: site where
  "site_404 u = Reply (Response 404 [])"

text \<open>The two-page site with the biography page of B unreachable.\<close>

definition site_b_down :: site where
  "site_b_down u = (if u = BASE_URL @ ''/author/B'' then NoResponse else demo_site u)"

text \<open>A site that answers no request.\<close>

definition site_down :: site where
  "site_down u = NoResponse"

text \<open>The two-page site with the second listing page unreachable.\<close>

definition site_page2_down :: site where
  "site_page2_down u = (if u = BASE_URL @ ''/page/2/'' then NoResponse else demo_site u)"

text \<open>A quote block without any link, and a site whose first page holds it.\<close>

definition linkless_block :: node where
  "linkless_block =
     Tag ''div'' [''quote''] []
       [Tag ''span'' [''text''] [] [NavigableString ''q''],
        Tag ''small'' [''author''] [] [NavigableString ''A'']]"

definition site_linkless :: site where
  "site_linkless u =
     (if u = BASE_URL then Reply (Response 200 [linkless_block, next_nav ''/page/2/''])
      else demo_site u)"

text \<open>The two-page site with a quote block without any link on its second page.\<close>

definition site_linkless_page2 :: site where
  "site_linkless_page2 u =
     (if u = BASE_URL @ ''/page/2/''
      then Reply (Response 200 [quote_block ''q3'' ''B'' ''/author/B'' [''z''], linkless_block])
      else demo_site u)"

text \<open>The two-page site with a biography page of A that has no description.\<close>

definition site_bio_untitled :: site where
  "site_bio_untitled u =
     (if u = BASE_URL @ ''/author/A''
      then Reply (Response 200 [Tag ''h3'' [''author-title''] [] [NavigableString ''A'']])
      else demo_site u)"

text \<open>
  A quote block whose only link is a tag link, and a site whose single page holds it
  after a complete quote by the same author.
\<close>

definition taglink_block :: node where
  "taglink_block =
     Tag ''div'' [''quote''] []
       [Tag ''span'' [''text''] [] [NavigableString ''q2''],
        Tag ''small'' [''author''] [] [NavigableString ''A''],
        Tag ''a'' [''tag''] [(''href'', ''/tag/x/'')] [NavigableString ''x'']]"

definition site_taglink :: site where
  "site_taglink u =
     (if u = BASE_URL
      then Reply (Response 200 [quote_block ''q1'' ''A'' ''/author/A'' [], taglink_block])
      else demo_site u)"

text \<open>
  Worlds in which a file operation fails: the first one (opening the quotes file), and
  the eighth one (for the four quotes of the two-page site: the header row of the
  authors file, after the quotes file is complete and the authors file is open).
\<close>

definition w_open_fails :: world where
  "w_open_fails = w0\<lparr>faults := [True]\<rparr>"

definition w_eighth_fails :: world where
  "w_eighth_fails = w0\<lparr>faults := [False, False, False, False, False, False, False, True]\<rparr>"

section \<open>Lemmas about the walker\<close>

lemma new_author_names_append [simp]:
  "new_author_names (xs @ ys) = new_author_names xs @ new_author_names ys"
  by (induction xs rule: new_author_names.induct) simp_all

lemma requests_append [simp]: "requests (xs @ ys) = requests xs @ requests ys"
  by (induction xs rule: requests.induct) simp_all

lemma listing_urls_append [simp]: "listing_urls (xs @ ys) = listing_urls xs @ listing_urls ys"
  by (induction xs rule: listing_urls.induct) simp_all

lemma encounter_order_append:
  "encounter_order seen (xs @ ys) = encounter_order (encounter_order seen xs) ys"
  by (induction xs arbitrary: seen) simp_all

lemma set_encounter_order: "set (encounter_order seen xs) = set seen \<union> set xs"
  by (induction xs arbitrary: seen) auto

lemma distinct_encounter_order: "distinct seen \<Longrightarrow> distinct (encounter_order seen xs)"
  by (induction xs arbitrary: seen) auto

lemma encounter_order_prefix: "\<exists>ns. encounter_order seen xs = seen @ ns"
  by (induction xs arbitrary: seen) (auto, metis append.assoc)

lemma logging_info_simps [simp]:
  "trace (logging_info m w) = trace w @ [Info m]"
  "files (logging_info m w) = files w"
  "faults (logging_info m w) = faults w"
  "file_of (logging_info m w) = file_of w"
  "read_file (logging_info m w) p = read_file w p"
  by (simp_all add: logging_info_def read_file_def)

lemma requests_get_world:
  "requests_get web u w = (r, w') \<Longrightarrow>
     trace w' = trace w @ [Request u] \<and> files w' = files w \<and> faults w' = faults w
     \<and> file_of w' = file_of w"
  by (auto simp: requests_get_def Let_def split: outcome.splits)

lemma parse_author_bio_world:
  "parse_author_bio web h w = (r, w') \<Longrightarrow>
     trace w' = trace w @ [Info (FetchingBioFrom (BASE_URL @ h)), Request (BASE_URL @ h)]
     \<and> files w' = files w \<and> faults w' = faults w \<and> file_of w' = file_of w"
  by (auto simp: parse_author_bio_def Let_def
           split: prod.splits sum.splits option.splits dest!: requests_get_world)

lemma quotes_loop_Cons_cases:
  assumes "quotes_loop web (b # rest) ql reg w = (r, w')"
  obtains
    (parse_err) e where "parse_single_quote b = Inl e" "r = Inl e" "w' = w"
  | (no_link) q where "parse_single_quote b = Inr q" "select_one (ByName ''a'') b = None"
      "r = Inl TypeError" "w' = w"
  | (no_href) q a where "parse_single_quote b = Inr q" "select_one (ByName ''a'') b = Some a"
      "getitem a ''href'' = None" "r = Inl KeyError" "w' = w"
  | (known) q a h where "parse_single_quote b = Inr q" "select_one (ByName ''a'') b = Some a"
      "getitem a ''href'' = Some h" "author q \<in> set (map fst reg)"
      "quotes_loop web rest (ql @ [q]) reg w = (r, w')"
  | (bio_err) q a h e where "parse_single_quote b = Inr q" "select_one (ByName ''a'') b = Some a"
      "getitem a ''href'' = Some h" "author q \<notin> set (map fst reg)"
      "parse_author_bio web h (logging_info (FetchingBioNew (author q)) w) = (Inl e, w')"
      "r = Inl e"
  | (new) q a h au w1 where "parse_single_quote b = Inr q" "select_one (ByName ''a'') b = Some a"
      "getitem a ''href'' = Some h" "author q \<notin> set (map fst reg)"
      "parse_author_bio web h (logging_info (FetchingBioNew (author q)) w) = (Inr au, w1)"
      "quotes_loop web rest (ql @ [q]) (reg @ [(author q, au)]) w1 = (r, w')"
proof (cases "parse_single_quote b")
  case (Inl e)
  with assms show ?thesis by (intro parse_err[of e]) auto
next
  case (Inr q)
  note q = this
  show ?thesis
  proof (cases "select_one (ByName ''a'') b")
    case None
    with assms q show ?thesis by (intro no_link[of q]) auto
  next
    case (Some a)
    note a = this
    show ?thesis
    proof (cases "getitem a ''href''")
      case None
      with assms q a show ?thesis by (intro no_href[of q a]) auto
    next
      case (Some h)
      note h = this
      show ?thesis
      proof (cases "author q \<in> set (map fst reg)")
        case True
        with assms q a h show ?thesis by (intro known[of q a h]) auto
      next
        case False
        note f = this
        obtain r1 w1 where p: "parse_author_bio web h (logging_info (FetchingBioNew (author q)) w) = (r1, w1)"
          by (cases "parse_author_bio web h (logging_info (FetchingBioNew (author q)) w)") 
        show ?thesis
        proof (cases r1)
          case (Inl e)
          with assms q a h f p show ?thesis by (intro bio_err[of q a h e]) auto
        next
          case (Inr au)
          with assms q a h f p show ?thesis by (intro new[of q a h au w1]) auto
        qed
      qed
    qed
  qed
qed




lemma quotes_loop_frame:
  "quotes_loop web bs ql reg w = (r, w') \<Longrightarrow>
     files w' = files w \<and> faults w' = faults w \<and> file_of w' = file_of w"
proof (induction bs arbitrary: ql reg w)
  case Nil
  then show ?case by auto
next
  case (Cons b rest)
  from Cons.prems(1) show ?case
  proof (cases rule: quotes_loop_Cons_cases)
    case (known q a h)
    from Cons.IH[OF known(5)] show ?thesis .
  next
    case (bio_err q a h e)
    from parse_author_bio_world[OF bio_err(5)] show ?thesis by simp
  next
    case (new q a h au w1)
    from parse_author_bio_world[OF new(5)] Cons.IH[OF new(6)] show ?thesis by simp
  qed simp_all
qed

lemma quotes_loop_quotes:
  "quotes_loop web bs ql reg w = (Inr (ql', reg'), w') \<Longrightarrow>
     map Inr ql' = map Inr ql @ map parse_single_quote bs"
proof (induction bs arbitrary: ql reg w)
  case Nil
  then show ?case by auto
next
  case (Cons b rest)
  from Cons.prems(1) show ?case
  proof (cases rule: quotes_loop_Cons_cases)
    case (known q a h)
    from Cons.IH[OF known(5)] known(1) show ?thesis by simp
  next
    case (new q a h au w1)
    from Cons.IH[OF new(6)] new(1) show ?thesis by simp
  qed simp_all
qed

lemma quotes_loop_keys:
  "quotes_loop web bs ql reg w = (Inr (ql', reg'), w') \<Longrightarrow>
     map fst reg = encounter_order S0 (map author ql) \<Longrightarrow>
     map fst reg' = encounter_order S0 (map author ql')"
proof (induction bs arbitrary: ql reg w)
  case Nil
  then show ?case by auto
next
  case (Cons b rest)
  from Cons.prems(1) show ?case
  proof (cases rule: quotes_loop_Cons_cases)
    case (known q a h)
    have "map fst reg = encounter_order S0 (map author (ql @ [q]))"
      using Cons.prems(2) known(4) by (simp add: encounter_order_append)
    from Cons.IH[OF known(5) this] show ?thesis .
  next
    case (new q a h au w1)
    have "map fst (reg @ [(author q, au)]) = encounter_order S0 (map author (ql @ [q]))"
      using Cons.prems(2) new(4) by (simp add: encounter_order_append)
    from Cons.IH[OF new(6) this] show ?thesis .
  qed simp_all
qed

lemma quotes_loop_names:
  "quotes_loop web bs ql reg w = (r, w') \<Longrightarrow>
     new_author_names (trace w) = N0 @ map fst reg \<Longrightarrow> distinct (map fst reg) \<Longrightarrow>
     (case r of
        Inr (ql', reg') \<Rightarrow> new_author_names (trace w') = N0 @ map fst reg' \<and> distinct (map fst reg')
      | Inl e \<Rightarrow> \<exists>ns. new_author_names (trace w') = N0 @ ns \<and> distinct ns)"
proof (induction bs arbitrary: ql reg w)
  case Nil
  then show ?case by auto
next
  case (Cons b rest)
  from Cons.prems(1) show ?case
  proof (cases rule: quotes_loop_Cons_cases)
    case (parse_err e)
    with Cons.prems show ?thesis by auto
  next
    case (no_link q)
    with Cons.prems show ?thesis by auto
  next
    case (no_href q a)
    with Cons.prems show ?thesis by auto
  next
    case (known q a h)
    from Cons.IH[OF known(5) Cons.prems(2,3)] show ?thesis .
  next
    case (bio_err q a h e)
    from parse_author_bio_world[OF bio_err(5)] Cons.prems(2,3) bio_err(4)
    have "new_author_names (trace w') = N0 @ (map fst reg @ [author q])"
      "distinct (map fst reg @ [author q])"
      by simp_all
    with bio_err(6) show ?thesis by auto
  next
    case (new q a h au w1)
    from parse_author_bio_world[OF new(5)] Cons.prems(2,3) new(4)
    have "new_author_names (trace w1) = N0 @ map fst (reg @ [(author q, au)])"
      "distinct (map fst (reg @ [(author q, au)]))"
      by simp_all
    from Cons.IH[OF new(6) this] show ?thesis .
  qed
qed

lemma quotes_loop_counts:
  "quotes_loop web bs ql reg w = (r, w') \<Longrightarrow>
     length (requests (trace w')) + length (new_author_names (trace w))
       = length (requests (trace w)) + length (new_author_names (trace w'))
     \<and> listing_urls (trace w') = listing_urls (trace w)"
proof (induction bs arbitrary: ql reg w)
  case Nil
  then show ?case by auto
next
  case (Cons b rest)
  from Cons.prems(1) show ?case
  proof (cases rule: quotes_loop_Cons_cases)
    case (known q a h)
    from Cons.IH[OF known(5)] show ?thesis .
  next
    case (bio_err q a h e)
    from parse_author_bio_world[OF bio_err(5)] show ?thesis by simp
  next
    case (new q a h au w1)
    from parse_author_bio_world[OF new(5)] Cons.IH[OF new(6)] show ?thesis by simp
  qed simp_all
qed

lemma crawl_loop_induct [consumes 1, case_names stop no_href fetch_err page_err step]:
  assumes run: "crawl_loop web nb aq reg w = Some (r, w')"
    and stop: "\<And>aq reg w. P None aq reg w (Inr (aq, reg)) w"
    and no_href: "\<And>btn aq reg w. getitem btn ''href'' = None \<Longrightarrow> P (Some btn) aq reg w (Inl KeyError) w"
    and fetch_err: "\<And>btn h e aq reg w w'.
        \<lbrakk>getitem btn ''href'' = Some h;
         requests_get web (BASE_URL @ h) (logging_info (FetchingPage (BASE_URL @ h)) w) = (Inl e, w')\<rbrakk>
        \<Longrightarrow> P (Some btn) aq reg w (Inl e) w'"
    and page_err: "\<And>btn h resp w1 e aq reg w w'.
        \<lbrakk>getitem btn ''href'' = Some h;
         requests_get web (BASE_URL @ h) (logging_info (FetchingPage (BASE_URL @ h)) w) = (Inr resp, w1);
         get_single_page_quotes web (BeautifulSoup (content resp)) reg w1 = (Inl e, w')\<rbrakk>
        \<Longrightarrow> P (Some btn) aq reg w (Inl e) w'"
    and step: "\<And>btn h resp w1 qs reg1 w2 aq reg w r w'.
        \<lbrakk>getitem btn ''href'' = Some h;
         requests_get web (BASE_URL @ h) (logging_info (FetchingPage (BASE_URL @ h)) w) = (Inr resp, w1);
         get_single_page_quotes web (BeautifulSoup (content resp)) reg w1 = (Inr (qs, reg1), w2);
         crawl_loop web (select_one (ChildOf ''li'' ''next'' ''a'') (BeautifulSoup (content resp)))
           (aq @ qs) reg1 w2 = Some (r, w');
         P (select_one (ChildOf ''li'' ''next'' ''a'') (BeautifulSoup (content resp)))
           (aq @ qs) reg1 w2 r w'\<rbrakk>
        \<Longrightarrow> P (Some btn) aq reg w r w'"
  shows "P nb aq reg w r w'"
proof -
  let ?Q = "\<lambda>web' nb aq reg w y.
     web' = web \<longrightarrow> crawl_loop web nb aq reg w = Some y \<longrightarrow> P nb aq reg w (fst y) (snd y)"
  have "?Q web nb aq reg w (r, w')"
  proof (rule crawl_loop.raw_induct[where P = ?Q, OF _ run], intro impI)
    fix f web' nb aq reg w y
    assume IH: "\<And>web'' nb aq reg w y. f web'' nb aq reg w = Some y \<Longrightarrow> ?Q web'' nb aq reg w y"
      and body: "(case nb of None \<Rightarrow> Some (Inr (aq, reg), w)
      | Some button \<Rightarrow>
          case getitem button ''href'' of None \<Rightarrow> Some (Inl KeyError, w)
          | Some href \<Rightarrow>
              case requests_get web' (BASE_URL @ href)
                    (logging_info (FetchingPage (BASE_URL @ href)) w) of
              (Inl e, w') \<Rightarrow> Some (Inl e, w')
              | (Inr resp, w') \<Rightarrow>
                  case get_single_page_quotes web'
                        (BeautifulSoup (content resp)) reg w' of
                  (Inl e, w'') \<Rightarrow> Some (Inl e, w'')
                  | (Inr (qs, authors'), w'') \<Rightarrow>
                      f web'
                       (select_one (ChildOf ''li'' ''next'' ''a'')
                         (BeautifulSoup (content resp)))
                       (aq @ qs) authors' w'') = Some y"
      and web: "web' = web" and real: "crawl_loop web nb aq reg w = Some y"
    show "P nb aq reg w (fst y) (snd y)"
    proof (cases nb)
      case None
      with body show ?thesis using stop by auto
    next
      case (Some btn)
      note btn = this
      show ?thesis
      proof (cases "getitem btn ''href''")
        case None
        with body btn show ?thesis using no_href by auto
      next
        case (Some h)
        note h = this
        obtain r1 w1 where g: "requests_get web (BASE_URL @ h) (logging_info (FetchingPage (BASE_URL @ h)) w) = (r1, w1)"
          by (cases "requests_get web (BASE_URL @ h) (logging_info (FetchingPage (BASE_URL @ h)) w)")
        show ?thesis
        proof (cases r1)
          case (Inl e)
          with body btn h g web show ?thesis using fetch_err[OF h] by auto
        next
          case (Inr resp)
          note resp = this
          obtain r2 w2 where p: "get_single_page_quotes web (BeautifulSoup (content resp)) reg w1 = (r2, w2)"
            by (cases "get_single_page_quotes web (BeautifulSoup (content resp)) reg w1")
          show ?thesis
          proof (cases r2)
            case (Inl e)
            with body btn h g web resp p show ?thesis using page_err[OF h] by auto
          next
            case (Inr qr)
            obtain qs reg1 where qr: "qr = (qs, reg1)" by (cases qr)
            let ?nb = "select_one (ChildOf ''li'' ''next'' ''a'') (BeautifulSoup (content resp))"
            from body btn h g web resp p Inr qr
            have f: "f web ?nb (aq @ qs) reg1 w2 = Some y" by simp
            from real btn h g resp p Inr qr
            have c: "crawl_loop web ?nb (aq @ qs) reg1 w2 = Some y"
              by (subst (asm) crawl_loop.simps) simp
            from IH[OF f] c have "P ?nb (aq @ qs) reg1 w2 (fst y) (snd y)" by simp
            with step[OF h g[unfolded resp] p[unfolded Inr qr], of aq "fst y" "snd y"] c btn
            show ?thesis by simp
          qed
        qed
      qed
    qed
  qed
  with run show ?thesis by simp
qed

section \<open>Lemmas about the crawl\<close>

lemma get_single_page_quotes_frame:
  "get_single_page_quotes web soup reg w = (r, w') \<Longrightarrow>
     files w' = files w \<and> faults w' = faults w \<and> file_of w' = file_of w"
  unfolding get_single_page_quotes_def by (rule quotes_loop_frame)

lemma get_single_page_quotes_quotes:
  "get_single_page_quotes web soup reg w = (Inr (qs, reg'), w') \<Longrightarrow>
     map Inr qs = page_quotes soup"
  unfolding get_single_page_quotes_def page_quotes_def
  by (drule quotes_loop_quotes) simp

lemma get_single_page_quotes_keys:
  "get_single_page_quotes web soup reg w = (Inr (qs, reg'), w') \<Longrightarrow>
     map fst reg' = encounter_order (map fst reg) (map author qs)"
  unfolding get_single_page_quotes_def
  by (erule quotes_loop_keys) simp

lemma get_single_page_quotes_names:
  "get_single_page_quotes web soup reg w = (r, w') \<Longrightarrow>
     new_author_names (trace w) = N0 @ map fst reg \<Longrightarrow> distinct (map fst reg) \<Longrightarrow>
     (case r of
        Inr (ql', reg') \<Rightarrow> new_author_names (trace w') = N0 @ map fst reg' \<and> distinct (map fst reg')
      | Inl e \<Rightarrow> \<exists>ns. new_author_names (trace w') = N0 @ ns \<and> distinct ns)"
  unfolding get_single_page_quotes_def by (rule quotes_loop_names)

lemma get_single_page_quotes_counts:
  "get_single_page_quotes web soup reg w = (r, w') \<Longrightarrow>
     length (requests (trace w')) + length (new_author_names (trace w))
       = length (requests (trace w)) + length (new_author_names (trace w'))
     \<and> listing_urls (trace w') = listing_urls (trace w)"
  unfolding get_single_page_quotes_def by (rule quotes_loop_counts)

lemma crawl_loop_frame:
  "crawl_loop web nb aq reg w = Some (r, w') \<Longrightarrow>
     files w' = files w \<and> faults w' = faults w \<and> file_of w' = file_of w"
proof (induction rule: crawl_loop_induct)
  case (fetch_err btn h e aq reg w w')
  from requests_get_world[OF fetch_err(2)] show ?case by simp
next
  case (page_err btn h resp w1 e aq reg w w')
  from requests_get_world[OF page_err(2)] get_single_page_quotes_frame[OF page_err(3)]
  show ?case by simp
next
  case (step btn h resp w1 qs reg1 w2 aq reg w r w')
  from requests_get_world[OF step(2)] get_single_page_quotes_frame[OF step(3)] step(5)
  show ?case by simp
qed simp_all

lemma crawl_loop_keys:
  "crawl_loop web nb aq reg w = Some (r, w') \<Longrightarrow> r = Inr (aq', reg') \<Longrightarrow>
     map fst reg = encounter_order S0 (map author aq) \<Longrightarrow>
     map fst reg' = encounter_order S0 (map author aq')"
proof (induction rule: crawl_loop_induct)
  case (step btn h resp w1 qs reg1 w2 aq reg w r w')
  have "map fst reg1 = encounter_order S0 (map author (aq @ qs))"
    using get_single_page_quotes_keys[OF step(3)] step(7)
    by (simp add: encounter_order_append)
  with step(5,6) show ?case by simp
qed simp_all

lemma crawl_loop_names:
  "crawl_loop web nb aq reg w = Some (r, w') \<Longrightarrow>
     new_author_names (trace w) = N0 @ map fst reg \<Longrightarrow> distinct (map fst reg) \<Longrightarrow>
     (case r of
        Inr (aq', reg') \<Rightarrow> new_author_names (trace w') = N0 @ map fst reg' \<and> distinct (map fst reg')
      | Inl e \<Rightarrow> \<exists>ns. new_author_names (trace w') = N0 @ ns \<and> distinct ns)"
proof (induction rule: crawl_loop_induct)
  case (stop aq reg w)
  then show ?case by simp
next
  case (no_href btn aq reg w)
  then show ?case by auto
next
  case (fetch_err btn h e aq reg w w')
  from requests_get_world[OF fetch_err(2)] fetch_err(3,4) show ?case by auto
next
  case (page_err btn h resp w1 e aq reg w w')
  from requests_get_world[OF page_err(2)] page_err(4)
  have "new_author_names (trace w1) = N0 @ map fst reg" by simp
  from get_single_page_quotes_names[OF page_err(3) this page_err(5)] show ?case by simp
next
  case (step btn h resp w1 qs reg1 w2 aq reg w r w')
  from requests_get_world[OF step(2)] step(6)
  have "new_author_names (trace w1) = N0 @ map fst reg" by simp
  from get_single_page_quotes_names[OF step(3) this step(7)]
  have "new_author_names (trace w2) = N0 @ map fst reg1" "distinct (map fst reg1)" by simp_all
  then show ?case by (rule step(5))
qed

lemma crawl_loop_counts:
  "crawl_loop web nb aq reg w = Some (r, w') \<Longrightarrow>
     length (requests (trace w')) + length (new_author_names (trace w)) + length (listing_urls (trace w))
       = length (requests (trace w)) + length (new_author_names (trace w')) + length (listing_urls (trace w'))"
proof (induction rule: crawl_loop_induct)
  case (fetch_err btn h e aq reg w w')
  from requests_get_world[OF fetch_err(2)] show ?case by simp
next
  case (page_err btn h resp w1 e aq reg w w')
  from requests_get_world[OF page_err(2)] get_single_page_quotes_counts[OF page_err(3)]
  show ?case by simp
next
  case (step btn h resp w1 qs reg1 w2 aq reg w r w')
  from requests_get_world[OF step(2)] get_single_page_quotes_counts[OF step(3)] step(5)
  show ?case by simp
qed simp_all

lemma get_all_cases:
  assumes "get_all_quotes_and_authors web w = Some (r, w')"
  obtains
    (fetch_err) e where
      "requests_get web BASE_URL (logging_info Starting w) = (Inl e, w')" "r = Inl e"
  | (page_err) resp w1 e where
      "requests_get web BASE_URL (logging_info Starting w) = (Inr resp, w1)"
      "get_single_page_quotes web (BeautifulSoup (content resp)) [] w1 = (Inl e, w')" "r = Inl e"
  | (loop_err) resp w1 qs reg1 w2 e where
      "requests_get web BASE_URL (logging_info Starting w) = (Inr resp, w1)"
      "get_single_page_quotes web (BeautifulSoup (content resp)) [] w1 = (Inr (qs, reg1), w2)"
      "crawl_loop web (select_one (ChildOf ''li'' ''next'' ''a'') (BeautifulSoup (content resp)))
         qs reg1 w2 = Some (Inl e, w')" "r = Inl e"
  | (ok) resp w1 qs reg1 w2 aq reg w3 where
      "requests_get web BASE_URL (logging_info Starting w) = (Inr resp, w1)"
      "get_single_page_quotes web (BeautifulSoup (content resp)) [] w1 = (Inr (qs, reg1), w2)"
      "crawl_loop web (select_one (ChildOf ''li'' ''next'' ''a'') (BeautifulSoup (content resp)))
         qs reg1 w2 = Some (Inr (aq, reg), w3)" "r = Inr (aq, reg)" "w' = logging_info Finished w3"
proof -
  obtain r1 w1 where g: "requests_get web BASE_URL (logging_info Starting w) = (r1, w1)"
    by (cases "requests_get web BASE_URL (logging_info Starting w)")
  show ?thesis
  proof (cases r1)
    case (Inl e)
    with assms g show ?thesis by (intro fetch_err[of e]) (auto simp: get_all_quotes_and_authors_def)
  next
    case (Inr resp)
    note resp = this
    obtain r2 w2 where p: "get_single_page_quotes web (BeautifulSoup (content resp)) [] w1 = (r2, w2)"
      by (cases "get_single_page_quotes web (BeautifulSoup (content resp)) [] w1")
    show ?thesis
    proof (cases r2)
      case (Inl e)
      with assms g resp p show ?thesis
        by (intro page_err[of resp w1 e]) (auto simp: get_all_quotes_and_authors_def)
    next
      case (Inr qr)
      obtain qs reg1 where qr: "qr = (qs, reg1)" by (cases qr)
      let ?c = "crawl_loop web (select_one (ChildOf ''li'' ''next'' ''a'') (BeautifulSoup (content resp))) qs reg1 w2"
      from assms g resp p Inr qr obtain y where c: "?c = Some y"
        by (cases ?c) (auto simp: get_all_quotes_and_authors_def)
      obtain r3 w3 where y: "y = (r3, w3)" by (cases y)
      show ?thesis
      proof (cases r3)
        case (Inl e)
        with assms g resp p Inr qr c y show ?thesis
          by (intro loop_err[of resp w1 qs reg1 w2 e]) (auto simp: get_all_quotes_and_authors_def)
      next
        case (Inr ar)
        obtain aq reg where ar: "ar = (aq, reg)" by (cases ar)
        with assms g resp p \<open>r2 = Inr qr\<close> qr c y Inr show ?thesis
          by (intro ok[of resp w1 qs reg1 w2 aq reg w3]) (auto simp: get_all_quotes_and_authors_def)
      qed
    qed
  qed
qed

lemma get_all_frame:
  assumes "get_all_quotes_and_authors web w = Some (r, w')"
  shows "files w' = files w \<and> faults w' = faults w \<and> file_of w' = file_of w"
  using assms
proof (cases rule: get_all_cases)
  case (fetch_err e)
  from requests_get_world[OF fetch_err(1)] show ?thesis by simp
next
  case (page_err resp w1 e)
  from requests_get_world[OF page_err(1)] get_single_page_quotes_frame[OF page_err(2)]
  show ?thesis by simp
next
  case (loop_err resp w1 qs reg1 w2 e)
  from requests_get_world[OF loop_err(1)] get_single_page_quotes_frame[OF loop_err(2)]
    crawl_loop_frame[OF loop_err(3)]
  show ?thesis by simp
next
  case (ok resp w1 qs reg1 w2 aq reg w3)
  from requests_get_world[OF ok(1)] get_single_page_quotes_frame[OF ok(2)]
    crawl_loop_frame[OF ok(3)] ok(5)
  show ?thesis by simp
qed

lemma get_all_keys:
  assumes "get_all_quotes_and_authors web w = Some (Inr (qs, reg), w')"
  shows "map fst reg = encounter_order [] (map author qs)"
  using assms
proof (cases rule: get_all_cases)
  case (ok resp w1 qs1 reg1 w2 aq reg' w3)
  from get_single_page_quotes_keys[OF ok(2)]
  have "map fst reg1 = encounter_order [] (map author qs1)" by simp
  from crawl_loop_keys[OF ok(3) refl this] ok(4) show ?thesis by simp
qed simp_all

lemma get_all_names:
  assumes "get_all_quotes_and_authors web w = Some (r, w')"
  shows "\<exists>ns. new_author_names (trace w') = new_author_names (trace w) @ ns \<and> distinct ns \<and>
           (\<forall>qs reg. r = Inr (qs, reg) \<longrightarrow> ns = map fst reg)"
  using assms
proof (cases rule: get_all_cases)
  case (fetch_err e)
  from requests_get_world[OF fetch_err(1)] fetch_err(2) show ?thesis by simp
next
  case (page_err resp w1 e)
  from requests_get_world[OF page_err(1)]
  have "new_author_names (trace w1) = new_author_names (trace w) @ map fst ([] :: registry)" by simp
  from get_single_page_quotes_names[OF page_err(2) this] page_err(3) show ?thesis by auto
next
  case (loop_err resp w1 qs reg1 w2 e)
  from requests_get_world[OF loop_err(1)]
  have "new_author_names (trace w1) = new_author_names (trace w) @ map fst ([] :: registry)" by simp
  from get_single_page_quotes_names[OF loop_err(2) this]
  have "new_author_names (trace w2) = new_author_names (trace w) @ map fst reg1" "distinct (map fst reg1)"
    by simp_all
  from crawl_loop_names[OF loop_err(3) this] loop_err(4) show ?thesis by auto
next
  case (ok resp w1 qs reg1 w2 aq reg w3)
  from requests_get_world[OF ok(1)]
  have "new_author_names (trace w1) = new_author_names (trace w) @ map fst ([] :: registry)" by simp
  from get_single_page_quotes_names[OF ok(2) this]
  have "new_author_names (trace w2) = new_author_names (trace w) @ map fst reg1" "distinct (map fst reg1)"
    by simp_all
  from crawl_loop_names[OF ok(3) this] ok(4,5) show ?thesis by auto
qed

lemma get_all_counts:
  assumes "get_all_quotes_and_authors web w = Some (r, w')"
  shows "length (requests (trace w')) + length (new_author_names (trace w)) + length (listing_urls (trace w))
       = 1 + length (requests (trace w)) + length (new_author_names (trace w')) + length (listing_urls (trace w'))"
  using assms
proof (cases rule: get_all_cases)
  case (fetch_err e)
  from requests_get_world[OF fetch_err(1)] show ?thesis by simp
next
  case (page_err resp w1 e)
  from requests_get_world[OF page_err(1)] get_single_page_quotes_counts[OF page_err(2)]
  show ?thesis by simp
next
  case (loop_err resp w1 qs reg1 w2 e)
  from requests_get_world[OF loop_err(1)] get_single_page_quotes_counts[OF loop_err(2)]
    crawl_loop_counts[OF loop_err(3)]
  show ?thesis by simp
next
  case (ok resp w1 qs reg1 w2 aq reg w3)
  from requests_get_world[OF ok(1)] get_single_page_quotes_counts[OF ok(2)]
    crawl_loop_counts[OF ok(3)] ok(5)
  show ?thesis by simp
qed

section \<open>Lemmas about the serializer\<close>

lemma next_fault_world:
  "next_fault w = (b, w') \<Longrightarrow>
     trace w' = trace w \<and> files w' = files w \<and> file_of w' = file_of w"
  by (auto simp: next_fault_def split: list.splits)

lemma next_fault_none: "faults w = [] \<Longrightarrow> next_fault w = (False, w)"
  by (simp add: next_fault_def)

lemma open_w_ok:
  "open_w p w = (Inr f, w') \<Longrightarrow>
     f = file_of w p \<and> files w' f = Some [] \<and> (\<forall>f'. f' \<noteq> f \<longrightarrow> files w' f' = files w f') \<and>
     trace w' = trace w \<and> file_of w' = file_of w"
  by (auto simp: open_w_def split: prod.splits bool.splits dest!: next_fault_world)

lemma open_w_err:
  "open_w p w = (Inl e, w') \<Longrightarrow>
     e = OSError \<and> files w' = files w \<and> trace w' = trace w \<and> file_of w' = file_of w"
  by (auto simp: open_w_def split: prod.splits bool.splits dest!: next_fault_world)

lemma open_w_no_fault:
  "faults w = [] \<Longrightarrow> \<exists>w'. open_w p w = (Inr (file_of w p), w') \<and> faults w' = []"
  by (simp add: open_w_def next_fault_none)

lemma writerow_ok:
  "writerow f row w = (Inr u, w') \<Longrightarrow> files w f = Some old \<Longrightarrow>
     files w' f = Some (old @ csv_row (map cell_str row)) \<and>
     (\<forall>f'. f' \<noteq> f \<longrightarrow> files w' f' = files w f') \<and> trace w' = trace w \<and> file_of w' = file_of w"
  by (auto simp: writerow_def file_write_def split: prod.splits bool.splits dest!: next_fault_world)

lemma writerow_other:
  "writerow f row w = (r, w') \<Longrightarrow>
     (\<forall>f'. f' \<noteq> f \<longrightarrow> files w' f' = files w f') \<and> trace w' = trace w \<and> file_of w' = file_of w"
  by (auto simp: writerow_def file_write_def split: prod.splits bool.splits dest!: next_fault_world)

lemma writerow_err:
  "writerow f row w = (Inl e, w') \<Longrightarrow>
     e = OSError \<and> files w' = files w \<and> trace w' = trace w \<and> file_of w' = file_of w"
  by (auto simp: writerow_def file_write_def split: prod.splits bool.splits dest!: next_fault_world)

lemma writerow_no_fault:
  "faults w = [] \<Longrightarrow> \<exists>w'. writerow f row w = (Inr (), w') \<and> faults w' = []"
  by (simp add: writerow_def file_write_def next_fault_none)

lemma writerows_other:
  "writerows f rows w = (r, w') \<Longrightarrow>
     (\<forall>f'. f' \<noteq> f \<longrightarrow> files w' f' = files w f') \<and> trace w' = trace w \<and> file_of w' = file_of w"
proof (induction rows arbitrary: w)
  case Nil
  then show ?case by auto
next
  case (Cons row rows)
  obtain r1 w1 where r: "writerow f row w = (r1, w1)" by (cases "writerow f row w")
  show ?case
  proof (cases r1)
    case (Inl e1)
    with Cons.prems r writerow_other[OF r] show ?thesis by simp
  next
    case (Inr u1)
    with Cons.prems(1) r have "writerows f rows w1 = (r, w')" by simp
    from Cons.IH[OF this] writerow_other[OF r] show ?thesis by simp
  qed
qed

lemma writerows_ok:
  "writerows f rows w = (Inr u, w') \<Longrightarrow> files w f = Some old \<Longrightarrow>
     files w' f = Some (old @ concat (map (\<lambda>row. csv_row (map cell_str row)) rows))"
proof (induction rows arbitrary: w old)
  case Nil
  then show ?case by auto
next
  case (Cons row rows)
  obtain r1 w1 where r: "writerow f row w = (r1, w1)" by (cases "writerow f row w")
  show ?case
  proof (cases r1)
    case (Inl e)
    with Cons.prems r show ?thesis by simp
  next
    case (Inr u1)
    from writerow_ok[OF r[unfolded Inr] Cons.prems(2)]
    have f1: "files w1 f = Some (old @ csv_row (map cell_str row))" by simp
    from Cons.prems(1) r Inr have c: "writerows f rows w1 = (Inr u, w')" by simp
    from Cons.IH[OF c f1] show ?thesis by simp
  qed
qed

lemma writerows_err: "writerows f rows w = (Inl e, w') \<Longrightarrow> e = OSError"
proof (induction rows arbitrary: w)
  case Nil
  then show ?case by auto
next
  case (Cons row rows)
  obtain r1 w1 where r: "writerow f row w = (r1, w1)" by (cases "writerow f row w")
  show ?case
  proof (cases r1)
    case (Inl e1)
    with Cons.prems r writerow_err[OF r[unfolded Inl]] show ?thesis by simp
  next
    case (Inr u1)
    with Cons.prems(1) r have "writerows f rows w1 = (Inl e, w')" by simp
    from Cons.IH[OF this] show ?thesis .
  qed
qed

lemma writerows_no_fault:
  "faults w = [] \<Longrightarrow> \<exists>w'. writerows f rows w = (Inr (), w') \<and> faults w' = []"
proof (induction rows arbitrary: w)
  case Nil
  then show ?case by simp
next
  case (Cons row rows)
  from writerow_no_fault[OF Cons.prems, of f row]
  obtain w1 where "writerow f row w = (Inr (), w1)" "faults w1 = []" by blast
  with Cons.IH[of w1] show ?case by simp
qed

lemma save_table_cases:
  assumes "(case open_w p wa of
        (Inl e, w') \<Rightarrow> (Inl e, w')
      | (Inr file, w') \<Rightarrow>
          (case writerow file hdr w' of
             (Inl e, w'') \<Rightarrow> (Inl e, w'')
           | (Inr u, w'') \<Rightarrow>
               (case writerows file rows w'' of
                  (Inl e, w3) \<Rightarrow> (Inl e, w3)
                | (Inr u, w3) \<Rightarrow> (Inr (), logging_info m w3)))) = (r, wz)"
  obtains
    (open_err) "r = Inl OSError" "files wz = files wa" "trace wz = trace wa"
      "file_of wz = file_of wa"
  | (write_err) "r = Inl OSError" "\<forall>f'. f' \<noteq> file_of wa p \<longrightarrow> files wz f' = files wa f'"
      "trace wz = trace wa" "file_of wz = file_of wa"
  | (ok) "r = Inr ()" "files wz (file_of wa p) = Some (csv_text (hdr # rows))"
      "\<forall>f'. f' \<noteq> file_of wa p \<longrightarrow> files wz f' = files wa f'" "trace wz = trace wa @ [Info m]"
      "file_of wz = file_of wa"
proof -
  obtain r1 w1 where o: "open_w p wa = (r1, w1)" by (cases "open_w p wa")
  show ?thesis
  proof (cases r1)
    case (Inl e)
    from open_w_err[OF o[unfolded Inl]] assms o Inl show ?thesis by (intro open_err) auto
  next
    case (Inr f)
    note r1 = this
    from open_w_ok[OF o[unfolded Inr]]
    have f: "f = file_of wa p" by simp
    from open_w_ok[OF o[unfolded Inr]]
    have f1: "files w1 f = Some []" "\<forall>f'. f' \<noteq> f \<longrightarrow> files w1 f' = files wa f'"
      "trace w1 = trace wa" "file_of w1 = file_of wa" by blast+
    obtain r2 w2 where h: "writerow f hdr w1 = (r2, w2)" by (cases "writerow f hdr w1")
    show ?thesis
    proof (cases r2)
      case (Inl e)
      from writerow_err[OF h[unfolded Inl]] f1 f assms o r1 h Inl show ?thesis
        by (intro write_err) auto
    next
      case (Inr u2)
      note r2 = this
      from writerow_ok[OF h[unfolded Inr] f1(1)] f1
      have f2: "files w2 f = Some (csv_row (map cell_str hdr))"
        "\<forall>f'. f' \<noteq> f \<longrightarrow> files w2 f' = files wa f'" "trace w2 = trace wa"
        "file_of w2 = file_of wa"
        by simp_all
      obtain r3 w3 where b: "writerows f rows w2 = (r3, w3)" by (cases "writerows f rows w2")
      from writerows_other[OF b] f2
      have f3: "\<forall>f'. f' \<noteq> f \<longrightarrow> files w3 f' = files wa f'" "trace w3 = trace wa"
        "file_of w3 = file_of wa" by simp_all
      show ?thesis
      proof (cases r3)
        case (Inl e)
        from writerows_err[OF b[unfolded Inl]] f3 f assms o r1 h r2 b Inl
        show ?thesis by (intro write_err) auto
      next
        case (Inr u3)
        from writerows_ok[OF b[unfolded Inr] f2(1)]
        have "files w3 f = Some (csv_text (hdr # rows))" by (simp add: csv_text_def)
        with f3 f assms o r1 h r2 b Inr show ?thesis
          by (intro ok) auto
      qed
    qed
  qed
qed

lemma save_quotes_to_csv_cases:
  assumes "save_quotes_to_csv quotes p w = (r, wz)"
  obtains
    (open_err) "r = Inl OSError" "files wz = files w" "file_of wz = file_of w"
  | (write_err) "r = Inl OSError" "\<forall>f'. f' \<noteq> file_of w p \<longrightarrow> files wz f' = files w f'"
      "file_of wz = file_of w"
  | (ok) "r = Inr ()"
      "files wz (file_of w p) =
         Some (csv_text ([Str ''text'', Str ''author'', Str ''tags''] # map quote_row quotes))"
      "\<forall>f'. f' \<noteq> file_of w p \<longrightarrow> files wz f' = files w f'" "file_of wz = file_of w"
  using assms unfolding save_quotes_to_csv_def
  by (cases rule: save_table_cases) simp_all

lemma save_authors_to_csv_cases:
  assumes "save_authors_to_csv authors p w = (r, wz)"
  obtains
    (open_err) "r = Inl OSError" "files wz = files w" "file_of wz = file_of w"
  | (write_err) "r = Inl OSError" "\<forall>f'. f' \<noteq> file_of w p \<longrightarrow> files wz f' = files w f'"
      "file_of wz = file_of w"
  | (ok) "r = Inr ()"
      "files wz (file_of w p) =
         Some (csv_text ([Str ''name'', Str ''bio''] # map (author_row \<circ> snd) authors))"
      "\<forall>f'. f' \<noteq> file_of w p \<longrightarrow> files wz f' = files w f'" "file_of wz = file_of w"
  using assms unfolding save_authors_to_csv_def
  by (cases rule: save_table_cases) simp_all

lemma save_quotes_to_csv_no_fault:
  "faults w = [] \<Longrightarrow> \<exists>w'. save_quotes_to_csv quotes p w = (Inr (), w') \<and> faults w' = []"
proof -
  assume f: "faults w = []"
  then have "faults (logging_info (SavingQuotes p) w) = []" by simp
  from open_w_no_fault[OF this, of p]
  obtain f w1 where o: "open_w p (logging_info (SavingQuotes p) w) = (Inr f, w1)" "faults w1 = []"
    by blast
  from writerow_no_fault[OF o(2), of f "[Str ''text'', Str ''author'', Str ''tags'']"]
  obtain w2 where h: "writerow f [Str ''text'', Str ''author'', Str ''tags''] w1 = (Inr (), w2)"
    "faults w2 = []" by blast
  from writerows_no_fault[OF h(2), of f "map quote_row quotes"]
  obtain w3 where b: "writerows f (map quote_row quotes) w2 = (Inr (), w3)" "faults w3 = []" by blast
  show ?thesis unfolding save_quotes_to_csv_def using o h b by simp
qed

lemma save_authors_to_csv_no_fault:
  "faults w = [] \<Longrightarrow> \<exists>w'. save_authors_to_csv authors p w = (Inr (), w') \<and> faults w' = []"
proof -
  assume f: "faults w = []"
  then have "faults (logging_info (SavingAuthors p) w) = []" by simp
  from open_w_no_fault[OF this, of p]
  obtain f w1 where o: "open_w p (logging_info (SavingAuthors p) w) = (Inr f, w1)" "faults w1 = []"
    by blast
  from writerow_no_fault[OF o(2), of f "[Str ''name'', Str ''bio'']"]
  obtain w2 where h: "writerow f [Str ''name'', Str ''bio''] w1 = (Inr (), w2)"
    "faults w2 = []" by blast
  from writerows_no_fault[OF h(2), of f "map (author_row \<circ> snd) authors"]
  obtain w3 where b: "writerows f (map (author_row \<circ> snd) authors) w2 = (Inr (), w3)" "faults w3 = []" by blast
  show ?thesis unfolding save_authors_to_csv_def using o h b by simp
qed

section \<open>The run over the two-page site\<close>

lemma demo_run:
  "get_all_quotes_and_authors demo_site w0 = Some (Inr (demo_quotes, demo_registry), w0\<lparr>trace := demo_trace\<rparr>)"
  by (simp add: get_all_quotes_and_authors_def demo_site_def w0_def requests_get_def logging_info_def BASE_URL_def
   BeautifulSoup_def get_single_page_quotes_def select_def select_one_def quote_block_def next_nav_def bio_page_def
   parse_single_quote_def parse_author_bio_def getitem_def text_of_def get_text_strip_def strip_def isspace_def crawl_loop.simps
   page1_def page2_def demo_quotes_def demo_registry_def demo_trace_def)

section \<open>Lemmas about whole runs\<close>

lemma quotes_loop_trace:
  "quotes_loop web bs ql reg w = (r, w') \<Longrightarrow> \<exists>tr. trace w' = trace w @ tr"
proof (induction bs arbitrary: ql reg w)
  case Nil
  then show ?case by auto
next
  case (Cons b rest)
  from Cons.prems(1) show ?case
  proof (cases rule: quotes_loop_Cons_cases)
    case (known q a h)
    from Cons.IH[OF known(5)] show ?thesis .
  next
    case (bio_err q a h e)
    from parse_author_bio_world[OF bio_err(5)] show ?thesis by simp
  next
    case (new q a h au w1)
    from parse_author_bio_world[OF new(5)] Cons.IH[OF new(6)] show ?thesis by auto
  qed simp_all
qed

lemma crawl_loop_trace:
  "crawl_loop web nb aq reg w = Some (r, w') \<Longrightarrow> \<exists>tr. trace w' = trace w @ tr"
proof (induction rule: crawl_loop_induct)
  case (fetch_err btn h e aq reg w w')
  from requests_get_world[OF fetch_err(2)] show ?case by simp
next
  case (page_err btn h resp w1 e aq reg w w')
  from requests_get_world[OF page_err(2)]
    quotes_loop_trace[OF page_err(3)[unfolded get_single_page_quotes_def]]
  show ?case by auto
next
  case (step btn h resp w1 qs reg1 w2 aq reg w r w')
  from requests_get_world[OF step(2)]
    quotes_loop_trace[OF step(3)[unfolded get_single_page_quotes_def]] step(5)
  show ?case by auto
qed simp_all

lemma get_all_trace:
  assumes "get_all_quotes_and_authors web w = Some (r, w')"
  shows "\<exists>tr. trace w' = trace w @ tr"
  using assms
proof (cases rule: get_all_cases)
  case (fetch_err e)
  from requests_get_world[OF fetch_err(1)] show ?thesis by simp
next
  case (page_err resp w1 e)
  from requests_get_world[OF page_err(1)]
    quotes_loop_trace[OF page_err(2)[unfolded get_single_page_quotes_def]]
  show ?thesis by auto
next
  case (loop_err resp w1 qs reg1 w2 e)
  from requests_get_world[OF loop_err(1)]
    quotes_loop_trace[OF loop_err(2)[unfolded get_single_page_quotes_def]]
    crawl_loop_trace[OF loop_err(3)]
  show ?thesis by auto
next
  case (ok resp w1 qs reg1 w2 aq reg w3)
  from requests_get_world[OF ok(1)]
    quotes_loop_trace[OF ok(2)[unfolded get_single_page_quotes_def]]
    crawl_loop_trace[OF ok(3)] ok(5)
  show ?thesis by auto
qed

lemma main_cases:
  assumes "main web p w = Some (r, wz)"
  obtains
    (crawl_err) e where "get_all_quotes_and_authors web w = Some (Inl e, wz)" "r = Inl e"
  | (quotes_err) qs reg w1 e where
      "get_all_quotes_and_authors web w = Some (Inr (qs, reg), w1)"
      "save_quotes_to_csv qs p w1 = (Inl e, wz)" "r = Inl e"
  | (authors_err) qs reg w1 w2 e where
      "get_all_quotes_and_authors web w = Some (Inr (qs, reg), w1)"
      "save_quotes_to_csv qs p w1 = (Inr (), w2)"
      "save_authors_to_csv reg OUTPUT_AUTHORS_PATH w2 = (Inl e, wz)" "r = Inl e"
  | (ok) qs reg w1 w2 w3 where
      "get_all_quotes_and_authors web w = Some (Inr (qs, reg), w1)"
      "save_quotes_to_csv qs p w1 = (Inr (), w2)"
      "save_authors_to_csv reg OUTPUT_AUTHORS_PATH w2 = (Inr (), w3)" "r = Inr ()"
      "wz = logging_info AllSaved w3"
proof -
  from assms obtain y where g: "get_all_quotes_and_authors web w = Some y"
    by (cases "get_all_quotes_and_authors web w") (auto simp: main_def)
  obtain r1 w1 where y: "y = (r1, w1)" by (cases y)
  show ?thesis
  proof (cases r1)
    case (Inl e)
    with assms g y show ?thesis by (intro crawl_err[of e]) (auto simp: main_def)
  next
    case (Inr qr)
    obtain qs reg where qr: "qr = (qs, reg)" by (cases qr)
    note r1 = Inr
    obtain r2 w2 where s: "save_quotes_to_csv qs p w1 = (r2, w2)"
      by (cases "save_quotes_to_csv qs p w1")
    show ?thesis
    proof (cases r2)
      case (Inl e)
      with assms g y r1 qr s show ?thesis
        by (intro quotes_err[of qs reg w1 e]) (auto simp: main_def)
    next
      case (Inr u2)
      note r2 = Inr
      obtain r3 w3 where a: "save_authors_to_csv reg OUTPUT_AUTHORS_PATH w2 = (r3, w3)"
        by (cases "save_authors_to_csv reg OUTPUT_AUTHORS_PATH w2")
      show ?thesis
      proof (cases r3)
        case (Inl e)
        with assms g y r1 qr s r2 a show ?thesis
          by (intro authors_err[of qs reg w1 w2 e]) (auto simp: main_def)
      next
        case (Inr u3)
        with assms g y r1 qr s r2 a show ?thesis
          by (intro ok[of qs reg w1 w2 w3]) (auto simp: main_def)
      qed
    qed
  qed
qed

lemma encounter_order_remdups: "encounter_order [] xs = rev (remdups (rev xs))"
proof -
  have "distinct seen \<Longrightarrow> encounter_order seen xs = rev (remdups (rev (seen @ xs)))" for seen
  proof (induction xs arbitrary: seen)
    case Nil
    then show ?case by (simp add: distinct_remdups_id)
  next
    case (Cons x xs)
    show ?case
    proof (cases "x \<in> set seen")
      case True
      have "x \<in> set ys \<Longrightarrow> remdups (zs @ x # ys) = remdups (zs @ ys)" for ys zs :: "string list"
        by (induction zs) auto
      from this[of "rev seen" "rev xs"] True
      have "remdups (rev xs @ x # rev seen) = remdups (rev xs @ rev seen)" by simp
      with True Cons show ?thesis by simp
    next
      case False
      with Cons.prems have "distinct (seen @ [x])" by simp
      from Cons.IH[OF this] False show ?thesis by simp
    qed
  qed
  from this[of "[]"] show ?thesis by simp
qed

lemma demo_main:
  "\<exists>w'. main demo_site ''quotes.csv'' w0 = Some (Inr (), w') \<and>
     read_file w' ''authors.csv'' =
       Some (''name,bio'' @ [CHR 0x0D, CHR 0x0A] @ ''A.,bio of A'' @ [CHR 0x0D, CHR 0x0A] @
             ''B,bio of B'' @ [CHR 0x0D, CHR 0x0A] @ ''C,bio of C'' @ [CHR 0x0D, CHR 0x0A])"
  apply (simp only: main_def demo_run option.case prod.case sum.case)
  by (simp add: demo_quotes_def demo_registry_def w0_def read_file_def plain_path_def
        OUTPUT_AUTHORS_PATH_def save_quotes_to_csv_def save_authors_to_csv_def open_w_def
        next_fault_def writerow_def file_write_def logging_info_def quote_row_def author_row_def
        csv_row_def csv_field_def csv_special_def str_list_def repr_def repr_char_def
        isprintable_def Let_def)

section \<open>Lemmas about pagination chains\<close>

lemma requests_get_reply:
  "web u = Reply resp \<Longrightarrow>
     requests_get web u w = (Inr resp, w\<lparr>trace := trace w @ [Request u]\<rparr>)"
  by (simp add: requests_get_def)

lemma requests_get_no_response:
  "web u = NoResponse \<Longrightarrow>
     requests_get web u w = (Inl RequestException, w\<lparr>trace := trace w @ [Request u]\<rparr>)"
  by (simp add: requests_get_def)

lemma requests_get_Inr: "requests_get web u w = (Inr resp, w') \<Longrightarrow> web u = Reply resp"
  by (auto simp: requests_get_def Let_def split: outcome.splits)

lemma requests_get_Inl:
  "requests_get web u w = (Inl e, w') \<Longrightarrow> web u = NoResponse \<and> e = RequestException"
  by (auto simp: requests_get_def Let_def split: outcome.splits)

lemma chain_from_Cons:
  assumes "chain_from web nb ((u, soup) # pages)"
  obtains btn h resp where "nb = Some btn" "getitem btn ''href'' = Some h" "u = BASE_URL @ h"
    "web u = Reply resp" "soup = BeautifulSoup (content resp)"
    "chain_from web (select_one (ChildOf ''li'' ''next'' ''a'') soup) pages"
  using assms by (cases nb) (auto split: option.splits outcome.splits)

lemma crawl_loop_chain_terminates:
  "chain_from web nb pages \<Longrightarrow> \<exists>y. crawl_loop web nb aq reg w = Some y"
proof (induction pages arbitrary: nb aq reg w)
  case Nil
  then have "nb = None" by (cases nb) simp_all
  then show ?case by (subst crawl_loop.simps) simp
next
  case (Cons page pages)
  obtain u soup where page: "page = (u, soup)" by (cases page)
  from Cons.prems[unfolded page] show ?case
  proof (cases rule: chain_from_Cons)
    case (1 btn h resp)
    let ?w1 = "(logging_info (FetchingPage (BASE_URL @ h)) w)\<lparr>trace :=
        trace (logging_info (FetchingPage (BASE_URL @ h)) w) @ [Request (BASE_URL @ h)]\<rparr>"
    from 1 have g: "requests_get web (BASE_URL @ h) (logging_info (FetchingPage (BASE_URL @ h)) w)
        = (Inr resp, ?w1)"
      by (intro requests_get_reply) simp
    obtain r2 w2 where p: "get_single_page_quotes web (BeautifulSoup (content resp)) reg ?w1 = (r2, w2)"
      by (cases "get_single_page_quotes web (BeautifulSoup (content resp)) reg ?w1")
    show ?thesis
    proof (cases r2)
      case (Inl e)
      with 1 g p show ?thesis by (subst crawl_loop.simps) simp
    next
      case (Inr qr)
      obtain qs reg1 where qr: "qr = (qs, reg1)" by (cases qr)
      from Cons.IH[OF 1(6), of "aq @ qs" reg1 w2] 1 g p Inr qr
      show ?thesis by (subst crawl_loop.simps) simp
    qed
  qed
qed

lemma crawl_loop_chain_result:
  "chain_from web nb pages \<Longrightarrow> crawl_loop web nb aq reg w = Some (Inr (aq', reg'), w') \<Longrightarrow>
     map Inr aq' = map Inr aq @ concat (map (\<lambda>(u, soup). page_quotes soup) pages) \<and>
     listing_urls (trace w') = listing_urls (trace w) @ map fst pages"
proof (induction pages arbitrary: nb aq reg w)
  case Nil
  then have "nb = None" by (cases nb) simp_all
  with Nil.prems(2) show ?case by (subst (asm) crawl_loop.simps) simp
next
  case (Cons page pages)
  obtain u soup where page: "page = (u, soup)" by (cases page)
  from Cons.prems(1)[unfolded page] show ?case
  proof (cases rule: chain_from_Cons)
    case (1 btn h resp)
    let ?w1 = "(logging_info (FetchingPage (BASE_URL @ h)) w)\<lparr>trace :=
        trace (logging_info (FetchingPage (BASE_URL @ h)) w) @ [Request (BASE_URL @ h)]\<rparr>"
    from 1 have g: "requests_get web (BASE_URL @ h) (logging_info (FetchingPage (BASE_URL @ h)) w)
        = (Inr resp, ?w1)"
      by (intro requests_get_reply) simp
    obtain r2 w2 where p: "get_single_page_quotes web (BeautifulSoup (content resp)) reg ?w1 = (r2, w2)"
      by (cases "get_single_page_quotes web (BeautifulSoup (content resp)) reg ?w1")
    show ?thesis
    proof (cases r2)
      case (Inl e)
      with 1 g p Cons.prems(2) show ?thesis by (subst (asm) crawl_loop.simps) simp
    next
      case (Inr qr)
      obtain qs reg1 where qr: "qr = (qs, reg1)" by (cases qr)
      from 1 g p Inr qr Cons.prems(2)
      have c: "crawl_loop web (select_one (ChildOf ''li'' ''next'' ''a'') soup) (aq @ qs) reg1 w2
          = Some (Inr (aq', reg'), w')"
        by (subst (asm) crawl_loop.simps) simp
      from get_single_page_quotes_quotes[OF p[unfolded Inr qr]]
      have q: "map Inr qs = page_quotes soup" using 1(5) by simp
      from get_single_page_quotes_counts[OF p]
      have l: "listing_urls (trace w2) = listing_urls (trace w) @ [u]" using 1(3) by simp
      from Cons.IH[OF 1(6) c] q l page show ?thesis by simp
    qed
  qed
qed

lemma crawl_loop_success_chain:
  "crawl_loop web nb aq reg w = Some (r, w') \<Longrightarrow> r = Inr x \<Longrightarrow> \<exists>pages. chain_from web nb pages"
proof (induction rule: crawl_loop_induct)
  case (stop aq reg w)
  show ?case by (intro exI[of _ "[]"]) simp
next
  case (step btn h resp w1 qs reg1 w2 aq reg w r w')
  from step(5)[OF step(6)] obtain pages where
    "chain_from web (select_one (ChildOf ''li'' ''next'' ''a'') (BeautifulSoup (content resp))) pages"
    by blast
  with step(1) requests_get_Inr[OF step(2)] show ?case
    by (intro exI[of _ "(BASE_URL @ h, BeautifulSoup (content resp)) # pages"]) simp
qed simp_all

section \<open>Lemmas about registry entries\<close>

lemma parse_author_bio_Inr:
  assumes "parse_author_bio web h w = (Inr au, w')"
  shows "\<exists>resp t d. web (BASE_URL @ h) = Reply resp \<and>
           select_one (ByClass ''author-title'') (BeautifulSoup (content resp)) = Some t \<and>
           select_one (ByClass ''author-description'') (BeautifulSoup (content resp)) = Some d \<and>
           au = \<lparr>name = strip (text_of t), bio = strip (text_of d)\<rparr>"
proof -
  obtain r1 w1 where g: "requests_get web (BASE_URL @ h)
      (logging_info (FetchingBioFrom (BASE_URL @ h)) w) = (r1, w1)"
    by (cases "requests_get web (BASE_URL @ h) (logging_info (FetchingBioFrom (BASE_URL @ h)) w)")
  show ?thesis
  proof (cases r1)
    case (Inl e)
    with assms g show ?thesis by (simp add: parse_author_bio_def)
  next
    case (Inr resp)
    from requests_get_Inr[OF g[unfolded Inr]] assms g Inr show ?thesis
      by (auto simp: parse_author_bio_def Let_def split: option.splits)
  qed
qed

lemma parse_single_quote_Inr:
  "parse_single_quote b = Inr q \<Longrightarrow>
     \<exists>t e. select_one (ByClass ''text'') b = Some t \<and> text q = text_of t \<and>
           select_one (ByClass ''author'') b = Some e \<and> author q = text_of e"
  by (auto simp: parse_single_quote_def split: option.splits)


section \<open>Lemmas about requests without a response\<close>

lemma stops_Nil: "r \<noteq> Inl RequestException \<Longrightarrow> stops_at_first_failure web [] (r = Inl RequestException)"
  by (simp add: stops_at_first_failure_def)

lemma stops_Cons:
  "answered web u \<Longrightarrow> stops_at_first_failure web rs f \<Longrightarrow> stops_at_first_failure web (u # rs) f"
  by (auto simp: stops_at_first_failure_def)

lemma stops_single_failure:
  "\<not> answered web u \<Longrightarrow> stops_at_first_failure web [u] True"
  by (simp add: stops_at_first_failure_def)

lemma requests_get_stops:
  assumes "requests_get web u w = (r, w')"
  shows "requests (trace w') = requests (trace w) @ [u] \<and>
         (case r of Inl e \<Rightarrow> e = RequestException \<and> \<not> answered web u | Inr resp \<Rightarrow> answered web u)"
  using assms by (auto simp: requests_get_def answered_def Let_def split: outcome.splits)

lemma parse_author_bio_stops:
  assumes "parse_author_bio web h w = (r, w')"
  shows "requests (trace w') = requests (trace w) @ [BASE_URL @ h] \<and>
         (if r = Inl RequestException then \<not> answered web (BASE_URL @ h)
          else answered web (BASE_URL @ h))"
proof -
  obtain r1 w1 where g: "requests_get web (BASE_URL @ h)
      (logging_info (FetchingBioFrom (BASE_URL @ h)) w) = (r1, w1)"
    by (cases "requests_get web (BASE_URL @ h) (logging_info (FetchingBioFrom (BASE_URL @ h)) w)")
  from requests_get_stops[OF g] parse_author_bio_world[OF assms] assms g show ?thesis
    by (cases r1) (auto simp: parse_author_bio_def Let_def split: option.splits)
qed

lemma quotes_loop_stops:
  "quotes_loop web bs ql reg w = (r, w') \<Longrightarrow>
     \<exists>rs. requests (trace w') = requests (trace w) @ rs \<and>
          stops_at_first_failure web rs (r = Inl RequestException)"
proof (induction bs arbitrary: ql reg w)
  case Nil
  then show ?case by (auto simp: stops_at_first_failure_def)
next
  case (Cons b rest)
  from Cons.prems(1) show ?case
  proof (cases rule: quotes_loop_Cons_cases)
    case (parse_err e)
    then have "e = AttributeError" by (auto simp: parse_single_quote_def split: option.splits)
    with parse_err show ?thesis by (simp add: stops_at_first_failure_def)
  next
    case (no_link q)
    then show ?thesis by (simp add: stops_at_first_failure_def)
  next
    case (no_href q a)
    then show ?thesis by (simp add: stops_at_first_failure_def)
  next
    case (known q a h)
    from Cons.IH[OF known(5)] show ?thesis .
  next
    case (bio_err q a h e)
    from parse_author_bio_stops[OF bio_err(5)] bio_err(6)
    show ?thesis
      by (intro exI[of _ "[BASE_URL @ h]"]) (auto simp: stops_at_first_failure_def)
  next
    case (new q a h au w1)
    from parse_author_bio_stops[OF new(5)]
    have a: "requests (trace w1) = requests (trace w) @ [BASE_URL @ h]" "answered web (BASE_URL @ h)"
      by simp_all
    from Cons.IH[OF new(6)] obtain rs where
      rs: "requests (trace w') = requests (trace w1) @ rs"
        "stops_at_first_failure web rs (r = Inl RequestException)" by blast
    from a rs stops_Cons[OF a(2) rs(2)] show ?thesis
      by (intro exI[of _ "(BASE_URL @ h) # rs"]) simp
  qed
qed

lemma crawl_loop_stops:
  "crawl_loop web nb aq reg w = Some (r, w') \<Longrightarrow>
     \<exists>rs. requests (trace w') = requests (trace w) @ rs \<and>
          stops_at_first_failure web rs (r = Inl RequestException)"
proof (induction rule: crawl_loop_induct)
  case (stop aq reg w)
  then show ?case by (simp add: stops_at_first_failure_def)
next
  case (no_href btn aq reg w)
  then show ?case by (simp add: stops_at_first_failure_def)
next
  case (fetch_err btn h e aq reg w w')
  from requests_get_stops[OF fetch_err(2)] show ?case
    by (intro exI[of _ "[BASE_URL @ h]"]) (simp add: stops_at_first_failure_def)
next
  case (page_err btn h resp w1 e aq reg w w')
  from requests_get_stops[OF page_err(2)]
  have a: "requests (trace w1) = requests (trace w) @ [BASE_URL @ h]" "answered web (BASE_URL @ h)"
    by simp_all
  from quotes_loop_stops[OF page_err(3)[unfolded get_single_page_quotes_def]] obtain rs where
    rs: "requests (trace w') = requests (trace w1) @ rs"
      "stops_at_first_failure web rs (Inl e = (Inl RequestException :: error + Quote list \<times> registry))"
    by blast
  from a rs stops_Cons[OF a(2) rs(2)] show ?case
    by (intro exI[of _ "(BASE_URL @ h) # rs"]) simp
next
  case (step btn h resp w1 qs reg1 w2 aq reg w r w')
  from requests_get_stops[OF step(2)]
  have a: "requests (trace w1) = requests (trace w) @ [BASE_URL @ h]" "answered web (BASE_URL @ h)"
    by simp_all
  from quotes_loop_stops[OF step(3)[unfolded get_single_page_quotes_def]] obtain rs1 where
    rs1: "requests (trace w2) = requests (trace w1) @ rs1" "list_all (answered web) rs1"
    by (auto simp: stops_at_first_failure_def)
  from step(5) obtain rs where
    rs: "requests (trace w') = requests (trace w2) @ rs"
      "stops_at_first_failure web rs (r = Inl RequestException)" by blast
  from a(2) rs1(2) rs(2)
  have "stops_at_first_failure web ((BASE_URL @ h) # rs1 @ rs) (r = Inl RequestException)"
    by (cases rs rule: rev_cases) (auto simp: stops_at_first_failure_def butlast_append)
  with a rs1 rs show ?case
    by (intro exI[of _ "(BASE_URL @ h) # rs1 @ rs"]) simp
qed

lemma get_all_stops:
  assumes "get_all_quotes_and_authors web w = Some (r, w')"
  shows "\<exists>rs. requests (trace w') = requests (trace w) @ rs \<and>
          stops_at_first_failure web rs (r = Inl RequestException)"
  using assms
proof (cases rule: get_all_cases)
  case (fetch_err e)
  from requests_get_stops[OF fetch_err(1)] fetch_err(2) show ?thesis
    by (intro exI[of _ "[BASE_URL]"]) (simp add: stops_at_first_failure_def)
next
  case (page_err resp w1 e)
  from requests_get_stops[OF page_err(1)]
  have a: "requests (trace w1) = requests (trace w) @ [BASE_URL]" "answered web BASE_URL"
    by simp_all
  from quotes_loop_stops[OF page_err(2)[unfolded get_single_page_quotes_def]] obtain rs where
    rs: "requests (trace w') = requests (trace w1) @ rs"
      "stops_at_first_failure web rs (Inl e = (Inl RequestException :: error + Quote list \<times> registry))"
    by blast
  from a rs stops_Cons[OF a(2) rs(2)] page_err(3) show ?thesis
    by (intro exI[of _ "BASE_URL # rs"]) simp
next
  case (loop_err resp w1 qs reg1 w2 e)
  from requests_get_stops[OF loop_err(1)]
  have a: "requests (trace w1) = requests (trace w) @ [BASE_URL]" "answered web BASE_URL"
    by simp_all
  from quotes_loop_stops[OF loop_err(2)[unfolded get_single_page_quotes_def]] obtain rs1 where
    rs1: "requests (trace w2) = requests (trace w1) @ rs1" "list_all (answered web) rs1"
    by (auto simp: stops_at_first_failure_def)
  from crawl_loop_stops[OF loop_err(3)] obtain rs where
    rs: "requests (trace w') = requests (trace w2) @ rs"
      "stops_at_first_failure web rs (Inl e = (Inl RequestException :: error + Quote list \<times> registry))"
    by blast
  from a(2) rs1(2) rs(2)
  have "stops_at_first_failure web (BASE_URL # rs1 @ rs)
      (Inl e = (Inl RequestException :: error + Quote list \<times> registry))"
    by (cases rs rule: rev_cases) (auto simp: stops_at_first_failure_def butlast_append)
  with a rs1 rs loop_err(4) show ?thesis
    by (intro exI[of _ "BASE_URL # rs1 @ rs"]) simp
next
  case (ok resp w1 qs reg1 w2 aq reg w3)
  from requests_get_stops[OF ok(1)]
  have a: "requests (trace w1) = requests (trace w) @ [BASE_URL]" "answered web BASE_URL"
    by simp_all
  from quotes_loop_stops[OF ok(2)[unfolded get_single_page_quotes_def]] obtain rs1 where
    rs1: "requests (trace w2) = requests (trace w1) @ rs1" "list_all (answered web) rs1"
    by (auto simp: stops_at_first_failure_def)
  from crawl_loop_stops[OF ok(3)] obtain rs where
    rs: "requests (trace w3) = requests (trace w2) @ rs" "list_all (answered web) rs"
    by (auto simp: stops_at_first_failure_def)
  from a rs1 rs ok(4,5) show ?thesis
    by (intro exI[of _ "BASE_URL # rs1 @ rs"]) (simp add: stops_at_first_failure_def)
qed

lemma save_table_requests:
  assumes "(case open_w p wa of
        (Inl e, w') \<Rightarrow> (Inl e, w')
      | (Inr file, w') \<Rightarrow>
          (case writerow file hdr w' of
             (Inl e, w'') \<Rightarrow> (Inl e, w'')
           | (Inr u, w'') \<Rightarrow>
               (case writerows file rows w'' of
                  (Inl e, w3) \<Rightarrow> (Inl e, w3)
                | (Inr u, w3) \<Rightarrow> (Inr (), logging_info m w3)))) = (r, wz)"
  shows "requests (trace wz) = requests (trace wa) \<and> r \<noteq> Inl RequestException"
  using assms by (cases rule: save_table_cases) simp_all

lemma save_quotes_to_csv_requests:
  "save_quotes_to_csv qs p w = (r, w') \<Longrightarrow>
     requests (trace w') = requests (trace w) \<and> r \<noteq> Inl RequestException"
  unfolding save_quotes_to_csv_def by (drule save_table_requests) simp

lemma save_authors_to_csv_requests:
  "save_authors_to_csv reg p w = (r, w') \<Longrightarrow>
     requests (trace w') = requests (trace w) \<and> r \<noteq> Inl RequestException"
  unfolding save_authors_to_csv_def by (drule save_table_requests) simp

lemma stops_last_once:
  assumes "stops_at_first_failure web rs True"
  shows "count_list rs (last rs) = 1"
proof -
  from assms obtain xs u where rs: "rs = xs @ [u]" by (cases rs rule: rev_cases) (auto simp: stops_at_first_failure_def)
  with assms have "\<not> answered web u" "list_all (answered web) xs"
    by (auto simp: stops_at_first_failure_def)
  then have "u \<notin> set xs" by (auto simp: list_all_iff)
  then have "count_list xs u = 0" by (simp add: count_list_0_iff)
  with rs show ?thesis by simp
qed

lemma site_b_down_run:
  "main site_b_down ''quotes.csv'' w0 =
     Some (Inl RequestException,
           w0\<lparr>trace := [Info Starting, Request BASE_URL, Info (FetchingBioNew ''A''),
                         Info (FetchingBioFrom (BASE_URL @ ''/author/A'')),
                         Request (BASE_URL @ ''/author/A''), Info (FetchingBioNew ''B''),
                         Info (FetchingBioFrom (BASE_URL @ ''/author/B'')),
                         Request (BASE_URL @ ''/author/B'')]\<rparr>)"
  by (simp add: main_def get_all_quotes_and_authors_def site_b_down_def demo_site_def w0_def
        requests_get_def logging_info_def BASE_URL_def BeautifulSoup_def
        get_single_page_quotes_def select_def select_one_def quote_block_def next_nav_def
        bio_page_def parse_single_quote_def parse_author_bio_def getitem_def text_of_def
        get_text_strip_def strip_def isspace_def page1_def page2_def)

section \<open>Lemmas about malformed pages\<close>

lemma quotes_loop_malformed_head:
  assumes "malformed_quote b"
  shows "\<exists>e. quotes_loop web (b # rest) ql reg w = (Inl e, w) \<and> is_MalformedPageError e"
proof (cases "parse_single_quote b")
  case (Inl e)
  then have "e = AttributeError" by (auto simp: parse_single_quote_def split: option.splits)
  with Inl show ?thesis by simp
next
  case (Inr q)
  then have "select_one (ByClass ''text'') b \<noteq> None" "select_one (ByClass ''author'') b \<noteq> None"
    by (auto simp: parse_single_quote_def split: option.splits)
  with assms have "case select_one (ByName ''a'') b of None \<Rightarrow> True | Some a \<Rightarrow> getitem a ''href'' = None"
    by (simp add: malformed_quote_def)
  with Inr show ?thesis by (cases "select_one (ByName ''a'') b") simp_all
qed

lemma quotes_loop_no_malformed:
  "quotes_loop web bs ql reg w = (Inr x, w') \<Longrightarrow> \<forall>b\<in>set bs. \<not> malformed_quote b"
proof (induction bs arbitrary: ql reg w)
  case Nil
  then show ?case by simp
next
  case (Cons b rest)
  have "\<not> malformed_quote b"
  proof
    assume "malformed_quote b"
    from quotes_loop_malformed_head[OF this, of web rest ql reg w] Cons.prems show False by auto
  qed
  moreover from Cons.prems have "\<forall>b\<in>set rest. \<not> malformed_quote b"
  proof (cases rule: quotes_loop_Cons_cases)
    case (known q a h)
    from Cons.IH[OF known(5)] show ?thesis .
  next
    case (new q a h au w1)
    from Cons.IH[OF new(6)] show ?thesis .
  qed simp_all
  ultimately show ?case by simp
qed

lemma crawl_loop_success_wellformed:
  "crawl_loop web nb aq reg w = Some (r, w') \<Longrightarrow> r = Inr x \<Longrightarrow>
     \<exists>pages. chain_from web nb pages \<and>
       (\<forall>s\<in>set (map snd pages). \<forall>b\<in>set (select (ByClass ''quote'') s). \<not> malformed_quote b)"
proof (induction rule: crawl_loop_induct)
  case (stop aq reg w)
  show ?case by (intro exI[of _ "[]"]) simp
next
  case (step btn h resp w1 qs reg1 w2 aq reg w r w')
  let ?soup = "BeautifulSoup (content resp)"
  from step(5)[OF step(6)] obtain pages where
    p: "chain_from web (select_one (ChildOf ''li'' ''next'' ''a'') ?soup) pages"
    "\<forall>s\<in>set (map snd pages). \<forall>b\<in>set (select (ByClass ''quote'') s). \<not> malformed_quote b"
    by blast
  from quotes_loop_no_malformed[OF step(3)[unfolded get_single_page_quotes_def]]
  have "\<forall>b\<in>set (select (ByClass ''quote'') ?soup). \<not> malformed_quote b" .
  with p step(1) requests_get_Inr[OF step(2)] show ?case
    by (intro exI[of _ "(BASE_URL @ h, ?soup) # pages"]) simp
qed simp_all


section \<open>Lemmas about requested URLs\<close>

lemma quotes_loop_requests_prefix:
  "quotes_loop web bs ql reg w = (r, w') \<Longrightarrow> \<exists>rs. requests (trace w') = requests (trace w) @ rs"
  by (drule quotes_loop_trace) auto

lemma crawl_loop_requests_prefix:
  "crawl_loop web nb aq reg w = Some (r, w') \<Longrightarrow> \<exists>rs. requests (trace w') = requests (trace w) @ rs"
  by (drule crawl_loop_trace) auto

lemma quotes_loop_first_request:
  assumes "parse_single_quote b = Inr q" "select_one (ByName ''a'') b = Some l"
    "getitem l ''href'' = Some h" "author q \<notin> set (map fst reg)"
    "quotes_loop web (b # rest) ql reg w = (r, w')"
  shows "\<exists>rs. requests (trace w') = requests (trace w) @ (BASE_URL @ h) # rs"
  using assms(5)
proof (cases rule: quotes_loop_Cons_cases)
  case (bio_err q' a' h' e)
  with assms(1-3) have "h' = h" "q' = q" by simp_all
  with parse_author_bio_world[OF bio_err(5)] show ?thesis by simp
next
  case (new q' a' h' au w1)
  with assms(1-3) have [simp]: "h' = h" "q' = q" by simp_all
  from parse_author_bio_world[OF new(5)] quotes_loop_requests_prefix[OF new(6)]
  show ?thesis by auto
qed (use assms in simp_all)

lemma crawl_loop_first_request:
  "crawl_loop web nb aq reg w = Some (r, w') \<Longrightarrow> nb = Some btn \<Longrightarrow>
     getitem btn ''href'' = Some h \<Longrightarrow>
     \<exists>rs. requests (trace w') = requests (trace w) @ (BASE_URL @ h) # rs"
proof (induction rule: crawl_loop_induct)
  case (fetch_err btn' h' e aq reg w w')
  then have "h' = h" by simp
  with requests_get_world[OF fetch_err(2)] show ?case by simp
next
  case (page_err btn' h' resp w1 e aq reg w w')
  then have "h' = h" by simp
  with requests_get_world[OF page_err(2)]
    quotes_loop_requests_prefix[OF page_err(3)[unfolded get_single_page_quotes_def]]
  show ?case by auto
next
  case (step btn' h' resp w1 qs reg1 w2 aq reg w r w')
  then have "h' = h" by simp
  with requests_get_world[OF step(2)]
    quotes_loop_requests_prefix[OF step(3)[unfolded get_single_page_quotes_def]]
    crawl_loop_requests_prefix[OF step(4)]
  show ?case by auto
qed simp_all

lemma demo_bio_A:
  "parse_author_bio demo_site ''/author/A'' w0 =
     (Inr \<lparr>name = ''A.'', bio = ''bio of A''\<rparr>,
      w0\<lparr>trace := [Info (FetchingBioFrom (BASE_URL @ ''/author/A'')),
                    Request (BASE_URL @ ''/author/A'')]\<rparr>)"
  by (simp add: demo_site_def w0_def requests_get_def logging_info_def BASE_URL_def
        BeautifulSoup_def select_def select_one_def bio_page_def parse_author_bio_def
        text_of_def strip_def isspace_def)

lemma demo_first_block:
  "quotes_loop demo_site [quote_block ''q1'' ''A'' ''/author/A'' [''x'', ''y'']] [] [] w0 =
     (Inr ([\<lparr>text = ''q1'', author = ''A'', tags = [''x'', ''y'']\<rparr>],
           [(''A'', \<lparr>name = ''A.'', bio = ''bio of A''\<rparr>)]),
      w0\<lparr>trace := [Info (FetchingBioNew ''A''),
                    Info (FetchingBioFrom (BASE_URL @ ''/author/A'')),
                    Request (BASE_URL @ ''/author/A'')]\<rparr>)"
  by (simp add: demo_site_def w0_def requests_get_def logging_info_def BASE_URL_def
        BeautifulSoup_def select_def select_one_def quote_block_def bio_page_def
        parse_single_quote_def parse_author_bio_def getitem_def text_of_def
        get_text_strip_def strip_def isspace_def)

lemma demo_second_page:
  "crawl_loop demo_site (Some (Tag ''a'' [] [(''href'', ''/page/2/'')] [NavigableString ''Next'']))
     [] [] w0 =
     Some (Inr ([\<lparr>text = ''q3'', author = ''B'', tags = [''z'']\<rparr>,
                 \<lparr>text = ''q4'', author = ''C'', tags = []\<rparr>],
                [(''B'', \<lparr>name = ''B'', bio = ''bio of B''\<rparr>),
                 (''C'', \<lparr>name = ''C'', bio = ''bio of C''\<rparr>)]),
           w0\<lparr>trace := [Info (FetchingPage (BASE_URL @ ''/page/2/'')),
                         Request (BASE_URL @ ''/page/2/''),
                         Info (FetchingBioNew ''B''),
                         Info (FetchingBioFrom (BASE_URL @ ''/author/B'')),
                         Request (BASE_URL @ ''/author/B''),
                         Info (FetchingBioNew ''C''),
                         Info (FetchingBioFrom (BASE_URL @ ''/author/C'')),
                         Request (BASE_URL @ ''/author/C'')]\<rparr>)"
  by (simp add: demo_site_def w0_def requests_get_def logging_info_def BASE_URL_def
        BeautifulSoup_def get_single_page_quotes_def select_def select_one_def quote_block_def
        bio_page_def parse_single_quote_def parse_author_bio_def getitem_def text_of_def
        get_text_strip_def strip_def isspace_def page2_def crawl_loop.simps)

section \<open>Lemmas about failing runs\<close>

lemma demo_run_faults:
  "get_all_quotes_and_authors demo_site (w0\<lparr>faults := fs\<rparr>) =
     Some (Inr (demo_quotes, demo_registry), w0\<lparr>trace := demo_trace, faults := fs\<rparr>)"
  by (simp add: get_all_quotes_and_authors_def demo_site_def requests_get_def w0_def
        logging_info_def BASE_URL_def BeautifulSoup_def get_single_page_quotes_def select_def
        select_one_def quote_block_def next_nav_def bio_page_def parse_single_quote_def
        parse_author_bio_def getitem_def text_of_def get_text_strip_def strip_def isspace_def
        crawl_loop.simps page1_def page2_def demo_quotes_def demo_registry_def demo_trace_def)

lemma site_b_down_crawl:
  "get_all_quotes_and_authors site_b_down w0 =
     Some (Inl RequestException,
           w0\<lparr>trace := [Info Starting, Request BASE_URL, Info (FetchingBioNew ''A''),
                         Info (FetchingBioFrom (BASE_URL @ ''/author/A'')),
                         Request (BASE_URL @ ''/author/A''), Info (FetchingBioNew ''B''),
                         Info (FetchingBioFrom (BASE_URL @ ''/author/B'')),
                         Request (BASE_URL @ ''/author/B'')]\<rparr>)"
  by (simp add: get_all_quotes_and_authors_def site_b_down_def demo_site_def w0_def
        requests_get_def logging_info_def BASE_URL_def BeautifulSoup_def
        get_single_page_quotes_def select_def select_one_def quote_block_def next_nav_def
        bio_page_def parse_single_quote_def parse_author_bio_def getitem_def text_of_def
        get_text_strip_def strip_def isspace_def page1_def page2_def)

lemma save_quotes_to_csv_Inl:
  assumes "save_quotes_to_csv qs p w = (Inl e, w')"
  shows "e = OSError \<and> (\<forall>f'. f' \<noteq> file_of w p \<longrightarrow> files w' f' = files w f') \<and>
         file_of w' = file_of w"
  using assms by (cases rule: save_quotes_to_csv_cases) simp_all

lemma save_authors_to_csv_Inl:
  assumes "save_authors_to_csv reg p w = (Inl e, w')"
  shows "e = OSError \<and> (\<forall>f'. f' \<noteq> file_of w p \<longrightarrow> files w' f' = files w f') \<and>
         file_of w' = file_of w"
  using assms by (cases rule: save_authors_to_csv_cases) simp_all

lemma save_quotes_to_csv_Inr:
  assumes "save_quotes_to_csv qs p w = (Inr u, w')"
  shows "files w' (file_of w p) = Some (csv_row [''text'', ''author'', ''tags''] @
           concat (map (\<lambda>q. csv_row [text q, author q, str_list (tags q)]) qs)) \<and>
         (\<forall>f'. f' \<noteq> file_of w p \<longrightarrow> files w' f' = files w f') \<and> file_of w' = file_of w"
  using assms
  by (cases rule: save_quotes_to_csv_cases) (simp_all add: csv_text_def quote_row_def comp_def)

lemma eighth_fails_quotes_saved:
  "\<exists>w2. save_quotes_to_csv demo_quotes p
           (w0\<lparr>trace := demo_trace,
               faults := [False, False, False, False, False, False, False, True]\<rparr>) = (Inr (), w2) \<and>
        trace w2 = demo_trace @ [Info (SavingQuotes p), Info (QuotesSaved p)] \<and>
        faults w2 = [False, True] \<and> file_of w2 = plain_path \<and>
        (\<forall>f'. f' \<noteq> plain_path p \<longrightarrow> files w2 f' = None)"
  by (simp add: save_quotes_to_csv_def demo_quotes_def open_w_def next_fault_def writerow_def
        file_write_def logging_info_def w0_def)

lemma eighth_fails_authors_not_saved:
  "faults w2 = [False, True] \<Longrightarrow>
     \<exists>w3. save_authors_to_csv reg p w2 = (Inl OSError, w3) \<and> read_file w3 p = Some []"
  by (simp add: save_authors_to_csv_def open_w_def next_fault_def writerow_def
        file_write_def logging_info_def read_file_def)

lemma site_bio_untitled_run:
  "main site_bio_untitled ''quotes.csv'' w0 =
     Some (Inl AttributeError,
           w0\<lparr>trace := [Info Starting, Request BASE_URL, Info (FetchingBioNew ''A''),
                         Info (FetchingBioFrom (BASE_URL @ ''/author/A'')),
                         Request (BASE_URL @ ''/author/A'')]\<rparr>)"
  by (simp add: main_def get_all_quotes_and_authors_def site_bio_untitled_def demo_site_def w0_def
        requests_get_def logging_info_def BASE_URL_def BeautifulSoup_def
        get_single_page_quotes_def select_def select_one_def quote_block_def next_nav_def
        bio_page_def parse_single_quote_def parse_author_bio_def getitem_def text_of_def
        get_text_strip_def strip_def isspace_def page1_def page2_def)

lemma site_linkless_page2_run:
  "main site_linkless_page2 ''quotes.csv'' w0 =
     Some (Inl TypeError,
           w0\<lparr>trace := [Info Starting, Request BASE_URL, Info (FetchingBioNew ''A''),
                         Info (FetchingBioFrom (BASE_URL @ ''/author/A'')),
                         Request (BASE_URL @ ''/author/A''), Info (FetchingBioNew ''B''),
                         Info (FetchingBioFrom (BASE_URL @ ''/author/B'')),
                         Request (BASE_URL @ ''/author/B''),
                         Info (FetchingPage (BASE_URL @ ''/page/2/'')),
                         Request (BASE_URL @ ''/page/2/'')]\<rparr>)"
  by (simp add: main_def get_all_quotes_and_authors_def site_linkless_page2_def demo_site_def w0_def
        requests_get_def logging_info_def BASE_URL_def BeautifulSoup_def
        get_single_page_quotes_def select_def select_one_def quote_block_def next_nav_def
        linkless_block_def crawl_loop.simps
        bio_page_def parse_single_quote_def parse_author_bio_def getitem_def text_of_def
        get_text_strip_def strip_def isspace_def page1_def page2_def)


section \<open>Lemmas about the first block of an author\<close>

lemma find_append_Some: "find P xs = Some x \<Longrightarrow> find P (xs @ ys) = Some x"
  by (induction xs) (auto split: if_splits)

lemma find_append_None: "find P xs = None \<Longrightarrow> find P (xs @ ys) = find P ys"
  by (induction xs) (auto split: if_splits)

lemma find_None_set: "find P xs = None \<longleftrightarrow> (\<forall>x\<in>set xs. \<not> P x)"
  by (induction xs) auto

lemma find_Some_set: "find P xs = Some x \<Longrightarrow> x \<in> set xs \<and> P x"
  by (induction xs) (auto split: if_splits)

lemma names_author_Inr: "parse_single_quote b = Inr q \<Longrightarrow> names_author k b \<longleftrightarrow> k = author q"
  by (auto simp: names_author_def)

lemma quote_blocks_append [simp]:
  "quote_blocks (xs @ ys) = quote_blocks xs @ quote_blocks ys"
  by (simp add: quote_blocks_def)

lemma quote_blocks_Cons:
  "quote_blocks (s # ss) = select (ByClass ''quote'') s @ quote_blocks ss"
  by (simp add: quote_blocks_def)

lemma quotes_loop_first_blocks:
  assumes "quotes_loop web bs ql reg w = (Inr (ql', reg'), w')"
    and "\<forall>x\<in>set reg. \<exists>b. find (names_author (fst x)) dn = Some b \<and> R b (snd x)"
    and "set (map fst reg) = {k. \<exists>b\<in>set dn. names_author k b}"
    and new: "\<And>b q l h au wa wb.
       \<lbrakk>parse_single_quote b = Inr q; select_one (ByName ''a'') b = Some l;
        getitem l ''href'' = Some h; parse_author_bio web h wa = (Inr au, wb)\<rbrakk> \<Longrightarrow> R b au"
  shows "(\<forall>x\<in>set reg'. \<exists>b. find (names_author (fst x)) (dn @ bs) = Some b \<and> R b (snd x)) \<and>
         set (map fst reg') = {k. \<exists>b\<in>set (dn @ bs). names_author k b}"
  using assms(1-3)
proof (induction bs arbitrary: ql reg w dn)
  case Nil
  then show ?case by auto
next
  case (Cons b rest)
  from Cons.prems(1) show ?case
  proof (cases rule: quotes_loop_Cons_cases)
    case (known q a h)
    have i: "\<forall>x\<in>set reg. \<exists>b'. find (names_author (fst x)) (dn @ [b]) = Some b' \<and> R b' (snd x)"
      using Cons.prems(2) by (blast intro: find_append_Some)
    from known(4) Cons.prems(3) names_author_Inr[OF known(1)]
    have k: "set (map fst reg) = {k. \<exists>b'\<in>set (dn @ [b]). names_author k b'}" by auto
    from Cons.IH[OF known(5) i k] show ?thesis by simp
  next
    case (new q a h au w1)
    from new(4) Cons.prems(3) have "\<forall>b'\<in>set dn. \<not> names_author (author q) b'" by auto
    then have "find (names_author (author q)) dn = None" by (simp add: find_None_set)
    then have "find (names_author (author q)) (dn @ [b]) = Some b"
      using names_author_Inr[OF new(1), of "author q"] by (simp add: find_append_None)
    moreover from assms(4)[OF new(1,2,3,5)] have "R b au" .
    moreover have "\<forall>x\<in>set reg. \<exists>b'. find (names_author (fst x)) (dn @ [b]) = Some b' \<and> R b' (snd x)"
      using Cons.prems(2) by (blast intro: find_append_Some)
    ultimately have i: "\<forall>x\<in>set (reg @ [(author q, au)]).
        \<exists>b'. find (names_author (fst x)) (dn @ [b]) = Some b' \<and> R b' (snd x)" by auto
    from Cons.prems(3) names_author_Inr[OF new(1)]
    have k: "set (map fst (reg @ [(author q, au)])) = {k. \<exists>b'\<in>set (dn @ [b]). names_author k b'}"
      by auto
    from Cons.IH[OF new(6) i k] show ?thesis by simp
  qed simp_all
qed

lemma chain_prefix_Cons:
  assumes "chain_prefix web nb ((u, soup) # pages)"
  obtains btn h resp where "nb = Some btn" "getitem btn ''href'' = Some h" "u = BASE_URL @ h"
    "web u = Reply resp" "soup = BeautifulSoup (content resp)"
    "chain_prefix web (select_one (ChildOf ''li'' ''next'' ''a'') soup) pages"
  using assms by (cases nb) (auto split: option.splits outcome.splits)

lemma crawl_loop_first_blocks:
  assumes "crawl_loop web nb aq reg w = Some (r, w')" and "r = Inr (aq', reg')"
    and "\<forall>x\<in>set reg. \<exists>b. find (names_author (fst x)) dn = Some b \<and> R b (snd x)"
    and "set (map fst reg) = {k. \<exists>b\<in>set dn. names_author k b}"
    and new: "\<And>b q l h au wa wb.
       \<lbrakk>parse_single_quote b = Inr q; select_one (ByName ''a'') b = Some l;
        getitem l ''href'' = Some h; parse_author_bio web h wa = (Inr au, wb)\<rbrakk> \<Longrightarrow> R b au"
  shows "\<exists>pages. chain_from web nb pages \<and>
           (\<forall>x\<in>set reg'. \<exists>b. find (names_author (fst x)) (dn @ quote_blocks (map snd pages)) = Some b
               \<and> R b (snd x)) \<and>
           set (map fst reg') = {k. \<exists>b\<in>set (dn @ quote_blocks (map snd pages)). names_author k b}"
  using assms(1-4)
proof (induction arbitrary: dn rule: crawl_loop_induct)
  case (stop aq reg w)
  then show ?case by (intro exI[of _ "[]"]) (simp add: quote_blocks_def)
next
  case (step btn h resp w1 qs reg1 w2 aq reg w r w')
  let ?soup = "BeautifulSoup (content resp)"
  from quotes_loop_first_blocks[where R = R, OF step(3)[unfolded get_single_page_quotes_def] step(7,8)] new
  have i: "\<forall>x\<in>set reg1. \<exists>b. find (names_author (fst x)) (dn @ select (ByClass ''quote'') ?soup) = Some b
               \<and> R b (snd x)"
    and k: "set (map fst reg1) = {k. \<exists>b\<in>set (dn @ select (ByClass ''quote'') ?soup). names_author k b}"
    by blast+
  from step(5)[OF step(6) i k] obtain pages where
    p: "chain_from web (select_one (ChildOf ''li'' ''next'' ''a'') ?soup) pages"
      "\<forall>x\<in>set reg'. \<exists>b. find (names_author (fst x))
          ((dn @ select (ByClass ''quote'') ?soup) @ quote_blocks (map snd pages)) = Some b \<and> R b (snd x)"
      "set (map fst reg') = {k. \<exists>b\<in>set ((dn @ select (ByClass ''quote'') ?soup) @
          quote_blocks (map snd pages)). names_author k b}"
    by blast
  from requests_get_Inr[OF step(2)] step(1) p(1)
  have c: "chain_from web (Some btn) ((BASE_URL @ h, ?soup) # pages)" by simp
  from p(2,3) c show ?case
    by (intro exI[of _ "(BASE_URL @ h, ?soup) # pages"]) (simp add: quote_blocks_Cons)
qed simp_all

lemma get_all_first_blocks:
  assumes "get_all_quotes_and_authors web w = Some (Inr (qs, reg), w')"
    and new: "\<And>b q l h au wa wb.
       \<lbrakk>parse_single_quote b = Inr q; select_one (ByName ''a'') b = Some l;
        getitem l ''href'' = Some h; parse_author_bio web h wa = (Inr au, wb)\<rbrakk> \<Longrightarrow> R b au"
  shows "\<exists>resp0 pages. web BASE_URL = Reply resp0 \<and>
           pagination_chain web (BeautifulSoup (content resp0)) pages \<and>
           (\<forall>x\<in>set reg. \<exists>b. find (names_author (fst x))
               (quote_blocks (BeautifulSoup (content resp0) # map snd pages)) = Some b \<and> R b (snd x)) \<and>
           set (map fst reg) =
             {k. \<exists>b\<in>set (quote_blocks (BeautifulSoup (content resp0) # map snd pages)). names_author k b}"
  using assms(1)
proof (cases rule: get_all_cases)
  case (ok resp0 w1 qs1 reg1 w2 aq reg2 w3)
  let ?soup = "BeautifulSoup (content resp0)"
  have "(\<forall>x\<in>set reg1. \<exists>b. find (names_author (fst x)) ([] @ select (ByClass ''quote'') ?soup) = Some b
               \<and> R b (snd x)) \<and>
      set (map fst reg1) = {k. \<exists>b\<in>set ([] @ select (ByClass ''quote'') ?soup). names_author k b}"
    by (rule quotes_loop_first_blocks[where R = R and dn = "[]" and reg = "[]",
          OF ok(2)[unfolded get_single_page_quotes_def]])
       (simp, simp, erule new, assumption+)
  then have i: "\<forall>x\<in>set reg1. \<exists>b. find (names_author (fst x)) ([] @ select (ByClass ''quote'') ?soup) = Some b
               \<and> R b (snd x)"
    and k: "set (map fst reg1) = {k. \<exists>b\<in>set ([] @ select (ByClass ''quote'') ?soup). names_author k b}"
    by blast+
  from crawl_loop_first_blocks[where R = R, OF ok(3) refl i k] new obtain pages where
    p: "chain_from web (select_one (ChildOf ''li'' ''next'' ''a'') ?soup) pages"
      "\<forall>x\<in>set reg2. \<exists>b. find (names_author (fst x))
          (([] @ select (ByClass ''quote'') ?soup) @ quote_blocks (map snd pages)) = Some b \<and> R b (snd x)"
      "set (map fst reg2) = {k. \<exists>b\<in>set (([] @ select (ByClass ''quote'') ?soup) @
          quote_blocks (map snd pages)). names_author k b}"
    by blast
  from p ok(4) requests_get_Inr[OF ok(1)] show ?thesis
    by (intro exI[of _ resp0] exI[of _ pages]) (simp add: pagination_chain_def quote_blocks_Cons)
qed simp_all

lemma get_all_quotes_blocks:
  assumes "get_all_quotes_and_authors web w = Some (Inr (qs, reg), w')"
    and "web BASE_URL = Reply resp0"
    and "pagination_chain web (BeautifulSoup (content resp0)) pages"
  shows "map Inr qs =
           map parse_single_quote (quote_blocks (BeautifulSoup (content resp0) # map snd pages))"
  using assms(1)
proof (cases rule: get_all_cases)
  case (ok resp w1 qs1 reg1 w2 aq reg2 w3)
  from requests_get_Inr[OF ok(1)] assms(2) have r: "resp = resp0" by simp
  from get_single_page_quotes_quotes[OF ok(2)] r
  have 1: "map Inr qs1 = page_quotes (BeautifulSoup (content resp0))" by simp
  from assms(3) r have "chain_from web
      (select_one (ChildOf ''li'' ''next'' ''a'') (BeautifulSoup (content resp))) pages"
    by (simp add: pagination_chain_def)
  from crawl_loop_chain_result[OF this ok(3)]
  have 2: "map Inr aq = map Inr qs1 @ concat (map (\<lambda>(u, soup). page_quotes soup) pages)" by simp
  have "concat (map (\<lambda>(u, soup). page_quotes soup) pages) =
      map parse_single_quote (quote_blocks (map snd pages))"
    by (induction pages) (auto simp: quote_blocks_def page_quotes_def)
  with 1 2 ok(4) show ?thesis by (simp add: quote_blocks_Cons page_quotes_def)
qed simp_all

section \<open>Lemmas about runs that meet a bad page\<close>

lemma next_after_Cons:
  "next_after nb ((u, soup) # pages) =
     next_after (select_one (ChildOf ''li'' ''next'' ''a'') soup) pages"
  by (simp add: next_after_def)

lemma crawl_loop_prefix:
  assumes "chain_prefix web nb pages"
    and "\<forall>x\<in>set reg. \<exists>b. find (names_author (fst x)) dn = Some b \<and> R b (snd x)"
    and "set (map fst reg) = {k. \<exists>b\<in>set dn. names_author k b}"
    and new: "\<And>b q l h au wa wb.
       \<lbrakk>parse_single_quote b = Inr q; select_one (ByName ''a'') b = Some l;
        getitem l ''href'' = Some h; parse_author_bio web h wa = (Inr au, wb)\<rbrakk> \<Longrightarrow> R b au"
  shows "(\<exists>e w'. crawl_loop web nb aq reg w = Some (Inl e, w')) \<or>
         (\<exists>aq1 reg1 w1.
            crawl_loop web nb aq reg w = crawl_loop web (next_after nb pages) aq1 reg1 w1 \<and>
            (\<forall>x\<in>set reg1. \<exists>b. find (names_author (fst x)) (dn @ quote_blocks (map snd pages)) = Some b
                \<and> R b (snd x)) \<and>
            set (map fst reg1) = {k. \<exists>b\<in>set (dn @ quote_blocks (map snd pages)). names_author k b} \<and>
            (\<forall>b\<in>set (quote_blocks (map snd pages)). \<not> malformed_quote b))"
  using assms(1-3)
proof (induction pages arbitrary: nb aq reg w dn)
  case Nil
  then show ?case
    by (intro disjI2 exI[of _ aq] exI[of _ reg] exI[of _ w]) (simp add: next_after_def quote_blocks_def)
next
  case (Cons page pages)
  obtain u soup where page: "page = (u, soup)" by (cases page)
  from Cons.prems(1)[unfolded page] show ?case
  proof (cases rule: chain_prefix_Cons)
    case (1 btn h resp)
    let ?w1 = "(logging_info (FetchingPage (BASE_URL @ h)) w)\<lparr>trace :=
        trace (logging_info (FetchingPage (BASE_URL @ h)) w) @ [Request (BASE_URL @ h)]\<rparr>"
    from 1 have g: "requests_get web (BASE_URL @ h) (logging_info (FetchingPage (BASE_URL @ h)) w)
        = (Inr resp, ?w1)"
      by (intro requests_get_reply) simp
    obtain r2 w2 where p: "get_single_page_quotes web (BeautifulSoup (content resp)) reg ?w1 = (r2, w2)"
      by (cases "get_single_page_quotes web (BeautifulSoup (content resp)) reg ?w1")
    show ?thesis
    proof (cases r2)
      case (Inl e)
      with 1 g p have "crawl_loop web nb aq reg w = Some (Inl e, w2)"
        by (subst crawl_loop.simps) simp
      then show ?thesis by blast
    next
      case (Inr qr)
      obtain qs reg1 where qr: "qr = (qs, reg1)" by (cases qr)
      from p Inr qr have q: "quotes_loop web (select (ByClass ''quote'') soup) [] reg ?w1
          = (Inr (qs, reg1), w2)"
        by (simp add: get_single_page_quotes_def 1(5))
      from 1 g p Inr qr have c: "crawl_loop web nb aq reg w =
          crawl_loop web (select_one (ChildOf ''li'' ''next'' ''a'') soup) (aq @ qs) reg1 w2"
        by (subst crawl_loop.simps) simp
      have "(\<forall>x\<in>set reg1. \<exists>b. find (names_author (fst x)) (dn @ select (ByClass ''quote'') soup) = Some b
               \<and> R b (snd x)) \<and>
          set (map fst reg1) = {k. \<exists>b\<in>set (dn @ select (ByClass ''quote'') soup). names_author k b}"
        by (rule quotes_loop_first_blocks[where R = R, OF q Cons.prems(2,3)])
           (erule new, assumption+)
      then have i: "\<forall>x\<in>set reg1. \<exists>b. find (names_author (fst x)) (dn @ select (ByClass ''quote'') soup) = Some b
               \<and> R b (snd x)"
        and k: "set (map fst reg1) = {k. \<exists>b\<in>set (dn @ select (ByClass ''quote'') soup). names_author k b}"
        by blast+
      from quotes_loop_no_malformed[OF q]
      have m: "\<forall>b\<in>set (select (ByClass ''quote'') soup). \<not> malformed_quote b" .
      from Cons.IH[OF 1(6) i k, of "aq @ qs" w2] show ?thesis
      proof
        assume "\<exists>e w'. crawl_loop web (select_one (ChildOf ''li'' ''next'' ''a'') soup) (aq @ qs) reg1 w2
            = Some (Inl e, w')"
        with c show ?thesis by simp
      next
        assume "\<exists>aq1 reg2 w1.
            crawl_loop web (select_one (ChildOf ''li'' ''next'' ''a'') soup) (aq @ qs) reg1 w2 =
              crawl_loop web (next_after (select_one (ChildOf ''li'' ''next'' ''a'') soup) pages) aq1 reg2 w1 \<and>
            (\<forall>x\<in>set reg2. \<exists>b. find (names_author (fst x))
                ((dn @ select (ByClass ''quote'') soup) @ quote_blocks (map snd pages)) = Some b
                \<and> R b (snd x)) \<and>
            set (map fst reg2) = {k. \<exists>b\<in>set ((dn @ select (ByClass ''quote'') soup) @
                quote_blocks (map snd pages)). names_author k b} \<and>
            (\<forall>b\<in>set (quote_blocks (map snd pages)). \<not> malformed_quote b)"
        then obtain aq1 reg2 w1 where
          n: "crawl_loop web (select_one (ChildOf ''li'' ''next'' ''a'') soup) (aq @ qs) reg1 w2 =
              crawl_loop web (next_after (select_one (ChildOf ''li'' ''next'' ''a'') soup) pages) aq1 reg2 w1"
          "\<forall>x\<in>set reg2. \<exists>b. find (names_author (fst x))
                ((dn @ select (ByClass ''quote'') soup) @ quote_blocks (map snd pages)) = Some b
                \<and> R b (snd x)"
          "set (map fst reg2) = {k. \<exists>b\<in>set ((dn @ select (ByClass ''quote'') soup) @
                quote_blocks (map snd pages)). names_author k b}"
          "\<forall>b\<in>set (quote_blocks (map snd pages)). \<not> malformed_quote b"
          by blast
        from n m c show ?thesis unfolding page
          by (intro disjI2 exI[of _ aq1] exI[of _ reg2] exI[of _ w1])
             (auto simp: next_after_Cons quote_blocks_Cons)
      qed
    qed
  qed
qed

lemma get_all_prefix:
  assumes "web BASE_URL = Reply resp0"
    and "chain_prefix web (select_one (ChildOf ''li'' ''next'' ''a'') (BeautifulSoup (content resp0))) pages"
    and new: "\<And>b q l h au wa wb.
       \<lbrakk>parse_single_quote b = Inr q; select_one (ByName ''a'') b = Some l;
        getitem l ''href'' = Some h; parse_author_bio web h wa = (Inr au, wb)\<rbrakk> \<Longrightarrow> R b au"
  shows "(\<exists>e w'. get_all_quotes_and_authors web w = Some (Inl e, w')) \<or>
         (\<exists>aq1 reg1 w1.
            get_all_quotes_and_authors web w =
              (case crawl_loop web
                 (next_after (select_one (ChildOf ''li'' ''next'' ''a'') (BeautifulSoup (content resp0))) pages)
                 aq1 reg1 w1 of
                 None \<Rightarrow> None
               | Some (Inl e, w3) \<Rightarrow> Some (Inl e, w3)
               | Some (Inr r, w3) \<Rightarrow> Some (Inr r, logging_info Finished w3)) \<and>
            (\<forall>x\<in>set reg1. \<exists>b. find (names_author (fst x))
                (quote_blocks (BeautifulSoup (content resp0) # map snd pages)) = Some b \<and> R b (snd x)) \<and>
            set (map fst reg1) =
              {k. \<exists>b\<in>set (quote_blocks (BeautifulSoup (content resp0) # map snd pages)). names_author k b} \<and>
            (\<forall>b\<in>set (quote_blocks (BeautifulSoup (content resp0) # map snd pages)). \<not> malformed_quote b))"
proof -
  let ?soup = "BeautifulSoup (content resp0)"
  let ?w1 = "(logging_info Starting w)\<lparr>trace := trace (logging_info Starting w) @ [Request BASE_URL]\<rparr>"
  from assms(1) have g: "requests_get web BASE_URL (logging_info Starting w) = (Inr resp0, ?w1)"
    by (intro requests_get_reply) simp
  obtain r2 w2 where p: "get_single_page_quotes web ?soup [] ?w1 = (r2, w2)"
    by (cases "get_single_page_quotes web ?soup [] ?w1")
  show ?thesis
  proof (cases r2)
    case (Inl e)
    with g p have "get_all_quotes_and_authors web w = Some (Inl e, w2)"
      by (simp add: get_all_quotes_and_authors_def)
    then show ?thesis by blast
  next
    case (Inr qr)
    obtain qs reg1 where qr: "qr = (qs, reg1)" by (cases qr)
    from p Inr qr have q: "quotes_loop web (select (ByClass ''quote'') ?soup) [] [] ?w1
        = (Inr (qs, reg1), w2)"
      by (simp add: get_single_page_quotes_def)
    from g p Inr qr have c: "get_all_quotes_and_authors web w =
        (case crawl_loop web (select_one (ChildOf ''li'' ''next'' ''a'') ?soup) qs reg1 w2 of
           None \<Rightarrow> None
         | Some (Inl e, w3) \<Rightarrow> Some (Inl e, w3)
         | Some (Inr r, w3) \<Rightarrow> Some (Inr r, logging_info Finished w3))"
      by (simp add: get_all_quotes_and_authors_def)
    have "(\<forall>x\<in>set reg1. \<exists>b. find (names_author (fst x)) ([] @ select (ByClass ''quote'') ?soup) = Some b
             \<and> R b (snd x)) \<and>
        set (map fst reg1) = {k. \<exists>b\<in>set ([] @ select (ByClass ''quote'') ?soup). names_author k b}"
      by (rule quotes_loop_first_blocks[where R = R and dn = "[]" and reg = "[]", OF q])
         (simp, simp, erule new, assumption+)
    then have i: "\<forall>x\<in>set reg1. \<exists>b. find (names_author (fst x)) (select (ByClass ''quote'') ?soup) = Some b
             \<and> R b (snd x)"
      and k: "set (map fst reg1) = {k. \<exists>b\<in>set (select (ByClass ''quote'') ?soup). names_author k b}"
      by simp_all
    from quotes_loop_no_malformed[OF q]
    have m: "\<forall>b\<in>set (select (ByClass ''quote'') ?soup). \<not> malformed_quote b" .
    have "(\<exists>e w'. crawl_loop web (select_one (ChildOf ''li'' ''next'' ''a'') ?soup) qs reg1 w2
              = Some (Inl e, w')) \<or>
         (\<exists>aq1 reg2 w1.
            crawl_loop web (select_one (ChildOf ''li'' ''next'' ''a'') ?soup) qs reg1 w2 =
              crawl_loop web (next_after (select_one (ChildOf ''li'' ''next'' ''a'') ?soup) pages) aq1 reg2 w1 \<and>
            (\<forall>x\<in>set reg2. \<exists>b. find (names_author (fst x))
                (select (ByClass ''quote'') ?soup @ quote_blocks (map snd pages)) = Some b
                \<and> R b (snd x)) \<and>
            set (map fst reg2) = {k. \<exists>b\<in>set (select (ByClass ''quote'') ?soup @
                quote_blocks (map snd pages)). names_author k b} \<and>
            (\<forall>b\<in>set (quote_blocks (map snd pages)). \<not> malformed_quote b))"
      by (rule crawl_loop_prefix[where R = R, OF assms(2) i k]) (erule new, assumption+)
    then show ?thesis
    proof
      assume "\<exists>e w'. crawl_loop web (select_one (ChildOf ''li'' ''next'' ''a'') ?soup) qs reg1 w2
              = Some (Inl e, w')"
      with c show ?thesis by auto
    next
      assume "\<exists>aq1 reg2 w1.
            crawl_loop web (select_one (ChildOf ''li'' ''next'' ''a'') ?soup) qs reg1 w2 =
              crawl_loop web (next_after (select_one (ChildOf ''li'' ''next'' ''a'') ?soup) pages) aq1 reg2 w1 \<and>
            (\<forall>x\<in>set reg2. \<exists>b. find (names_author (fst x))
                (select (ByClass ''quote'') ?soup @ quote_blocks (map snd pages)) = Some b
                \<and> R b (snd x)) \<and>
            set (map fst reg2) = {k. \<exists>b\<in>set (select (ByClass ''quote'') ?soup @
                quote_blocks (map snd pages)). names_author k b} \<and>
            (\<forall>b\<in>set (quote_blocks (map snd pages)). \<not> malformed_quote b)"
      then obtain aq1 reg2 w1 where
        n: "crawl_loop web (select_one (ChildOf ''li'' ''next'' ''a'') ?soup) qs reg1 w2 =
              crawl_loop web (next_after (select_one (ChildOf ''li'' ''next'' ''a'') ?soup) pages) aq1 reg2 w1"
          "\<forall>x\<in>set reg2. \<exists>b. find (names_author (fst x))
                (select (ByClass ''quote'') ?soup @ quote_blocks (map snd pages)) = Some b
                \<and> R b (snd x)"
          "set (map fst reg2) = {k. \<exists>b\<in>set (select (ByClass ''quote'') ?soup @
                quote_blocks (map snd pages)). names_author k b}"
          "\<forall>b\<in>set (quote_blocks (map snd pages)). \<not> malformed_quote b"
        by blast
      from n m c show ?thesis
        by (intro disjI2 exI[of _ aq1] exI[of _ reg2] exI[of _ w1])
           (auto simp: quote_blocks_Cons)
    qed
  qed
qed

lemma get_all_bad_block:
  assumes "web BASE_URL = Reply resp0"
    and "chain_prefix web (select_one (ChildOf ''li'' ''next'' ''a'') (BeautifulSoup (content resp0))) pages"
    and bad: "(\<exists>b\<in>set (quote_blocks (BeautifulSoup (content resp0) # map snd pages)). malformed_quote b) \<or>
       (\<exists>k b. find (names_author k) (quote_blocks (BeautifulSoup (content resp0) # map snd pages)) = Some b \<and>
              (\<forall>a. \<not> R b a))"
    and new: "\<And>b q l h au wa wb.
       \<lbrakk>parse_single_quote b = Inr q; select_one (ByName ''a'') b = Some l;
        getitem l ''href'' = Some h; parse_author_bio web h wa = (Inr au, wb)\<rbrakk> \<Longrightarrow> R b au"
  shows "\<exists>e w'. get_all_quotes_and_authors web w = Some (Inl e, w')"
proof -
  let ?blocks = "quote_blocks (BeautifulSoup (content resp0) # map snd pages)"
  have "(\<exists>e w'. get_all_quotes_and_authors web w = Some (Inl e, w')) \<or>
         (\<exists>aq1 reg1 w1.
            get_all_quotes_and_authors web w =
              (case crawl_loop web
                 (next_after (select_one (ChildOf ''li'' ''next'' ''a'') (BeautifulSoup (content resp0))) pages)
                 aq1 reg1 w1 of
                 None \<Rightarrow> None
               | Some (Inl e, w3) \<Rightarrow> Some (Inl e, w3)
               | Some (Inr r, w3) \<Rightarrow> Some (Inr r, logging_info Finished w3)) \<and>
            (\<forall>x\<in>set reg1. \<exists>b. find (names_author (fst x)) ?blocks = Some b \<and> R b (snd x)) \<and>
            set (map fst reg1) = {k. \<exists>b\<in>set ?blocks. names_author k b} \<and>
            (\<forall>b\<in>set ?blocks. \<not> malformed_quote b))"
    by (rule get_all_prefix[where R = R, OF assms(1,2)]) (erule new, assumption+)
  then show ?thesis
  proof
    assume "\<exists>aq1 reg1 w1.
            get_all_quotes_and_authors web w =
              (case crawl_loop web
                 (next_after (select_one (ChildOf ''li'' ''next'' ''a'') (BeautifulSoup (content resp0))) pages)
                 aq1 reg1 w1 of
                 None \<Rightarrow> None
               | Some (Inl e, w3) \<Rightarrow> Some (Inl e, w3)
               | Some (Inr r, w3) \<Rightarrow> Some (Inr r, logging_info Finished w3)) \<and>
            (\<forall>x\<in>set reg1. \<exists>b. find (names_author (fst x)) ?blocks = Some b \<and> R b (snd x)) \<and>
            set (map fst reg1) = {k. \<exists>b\<in>set ?blocks. names_author k b} \<and>
            (\<forall>b\<in>set ?blocks. \<not> malformed_quote b)"
    then obtain reg1 where
      i: "\<forall>x\<in>set reg1. \<exists>b. find (names_author (fst x)) ?blocks = Some b \<and> R b (snd x)"
      and k: "set (map fst reg1) = {k. \<exists>b\<in>set ?blocks. names_author k b}"
      and m: "\<forall>b\<in>set ?blocks. \<not> malformed_quote b" by blast
    from bad m obtain k0 b0 where f: "find (names_author k0) ?blocks = Some b0" "\<forall>a. \<not> R b0 a"
      by blast
    from find_Some_set[OF f(1)] k have "k0 \<in> set (map fst reg1)" by blast
    then obtain x where "x \<in> set reg1" "fst x = k0" by auto
    with i f show ?thesis by force
  qed
qed

lemma get_all_next_unreachable:
  assumes "web BASE_URL = Reply resp0"
    and "chain_prefix web (select_one (ChildOf ''li'' ''next'' ''a'') (BeautifulSoup (content resp0))) pages"
    and "next_after (select_one (ChildOf ''li'' ''next'' ''a'') (BeautifulSoup (content resp0))) pages
           = Some btn"
    and "getitem btn ''href'' = Some h" and "web (BASE_URL @ h) = NoResponse"
  shows "\<exists>e w'. get_all_quotes_and_authors web w = Some (Inl e, w')"
proof -
  have "(\<exists>e w'. get_all_quotes_and_authors web w = Some (Inl e, w')) \<or>
         (\<exists>aq1 reg1 w1.
            get_all_quotes_and_authors web w =
              (case crawl_loop web
                 (next_after (select_one (ChildOf ''li'' ''next'' ''a'') (BeautifulSoup (content resp0))) pages)
                 aq1 reg1 w1 of
                 None \<Rightarrow> None
               | Some (Inl e, w3) \<Rightarrow> Some (Inl e, w3)
               | Some (Inr r, w3) \<Rightarrow> Some (Inr r, logging_info Finished w3)) \<and>
            (\<forall>x\<in>set reg1. \<exists>b. find (names_author (fst x))
                (quote_blocks (BeautifulSoup (content resp0) # map snd pages)) = Some b \<and> True) \<and>
            set (map fst reg1) =
              {k. \<exists>b\<in>set (quote_blocks (BeautifulSoup (content resp0) # map snd pages)). names_author k b} \<and>
            (\<forall>b\<in>set (quote_blocks (BeautifulSoup (content resp0) # map snd pages)). \<not> malformed_quote b))"
    by (rule get_all_prefix[where R = "\<lambda>b a. True", OF assms(1,2)]) simp
  then show ?thesis
  proof
    assume "\<exists>aq1 reg1 w1.
            get_all_quotes_and_authors web w =
              (case crawl_loop web
                 (next_after (select_one (ChildOf ''li'' ''next'' ''a'') (BeautifulSoup (content resp0))) pages)
                 aq1 reg1 w1 of
                 None \<Rightarrow> None
               | Some (Inl e, w3) \<Rightarrow> Some (Inl e, w3)
               | Some (Inr r, w3) \<Rightarrow> Some (Inr r, logging_info Finished w3)) \<and>
            (\<forall>x\<in>set reg1. \<exists>b. find (names_author (fst x))
                (quote_blocks (BeautifulSoup (content resp0) # map snd pages)) = Some b \<and> True) \<and>
            set (map fst reg1) =
              {k. \<exists>b\<in>set (quote_blocks (BeautifulSoup (content resp0) # map snd pages)). names_author k b} \<and>
            (\<forall>b\<in>set (quote_blocks (BeautifulSoup (content resp0) # map snd pages)). \<not> malformed_quote b)"
    then obtain aq1 reg1 w1 where
      c: "get_all_quotes_and_authors web w =
              (case crawl_loop web
                 (next_after (select_one (ChildOf ''li'' ''next'' ''a'') (BeautifulSoup (content resp0))) pages)
                 aq1 reg1 w1 of
                 None \<Rightarrow> None
               | Some (Inl e, w3) \<Rightarrow> Some (Inl e, w3)
               | Some (Inr r, w3) \<Rightarrow> Some (Inr r, logging_info Finished w3))" by blast
    from assms(4,5) have "crawl_loop web (Some btn) aq1 reg1 w1 =
        Some (Inl RequestException,
              (logging_info (FetchingPage (BASE_URL @ h)) w1)\<lparr>trace :=
                 trace (logging_info (FetchingPage (BASE_URL @ h)) w1) @ [Request (BASE_URL @ h)]\<rparr>)"
      by (subst crawl_loop.simps) (simp add: requests_get_no_response)
    with c assms(3) show ?thesis by simp
  qed
qed

lemma parse_author_bio_error_kind:
  "parse_author_bio web h w = (Inl e, w') \<Longrightarrow> e = RequestException \<or> is_MalformedPageError e"
  by (auto simp: parse_author_bio_def Let_def
           split: prod.splits sum.splits option.splits dest!: requests_get_Inl)

lemma parse_single_quote_error_kind:
  "parse_single_quote b = Inl e \<Longrightarrow> is_MalformedPageError e"
  by (auto simp: parse_single_quote_def split: option.splits)

lemma quotes_loop_error_kind:
  "quotes_loop web bs ql reg w = (Inl e, w') \<Longrightarrow> e = RequestException \<or> is_MalformedPageError e"
proof (induction bs arbitrary: ql reg w)
  case Nil
  then show ?case by simp
next
  case (Cons b rest)
  from Cons.prems(1) show ?case
  proof (cases rule: quotes_loop_Cons_cases)
    case (parse_err e')
    with parse_single_quote_error_kind[OF parse_err(1)] show ?thesis by simp
  next
    case (known q a h)
    from Cons.IH[OF known(5)] show ?thesis .
  next
    case (bio_err q a h e')
    with parse_author_bio_error_kind[OF bio_err(5)] show ?thesis by simp
  next
    case (new q a h au w1)
    from Cons.IH[OF new(6)] show ?thesis .
  qed simp_all
qed

lemma crawl_loop_error_kind:
  "crawl_loop web nb aq reg w = Some (r, w') \<Longrightarrow> r = Inl e \<Longrightarrow>
     e = RequestException \<or> is_MalformedPageError e"
proof (induction rule: crawl_loop_induct)
  case (fetch_err btn h e' aq reg w w')
  with requests_get_Inl[OF fetch_err(2)] show ?case by simp
next
  case (page_err btn h resp w1 e' aq reg w w')
  with quotes_loop_error_kind[OF page_err(3)[unfolded get_single_page_quotes_def]] show ?case by simp
qed simp_all

lemma get_all_error_kind:
  assumes "get_all_quotes_and_authors web w = Some (Inl e, w')"
  shows "e = RequestException \<or> is_MalformedPageError e"
  using assms
proof (cases rule: get_all_cases)
  case (fetch_err e')
  with requests_get_Inl[OF fetch_err(1)] show ?thesis by simp
next
  case (page_err resp w1 e')
  with quotes_loop_error_kind[OF page_err(2)[unfolded get_single_page_quotes_def]] show ?thesis by simp
next
  case (loop_err resp w1 qs reg1 w2 e')
  with crawl_loop_error_kind[OF loop_err(3) refl] show ?thesis by simp
qed simp_all

lemma get_all_error_cause:
  assumes "get_all_quotes_and_authors web w = Some (Inl e, w')"
  shows "is_MalformedPageError e \<or>
         (is_NetworkError e \<and> \<not> answered web (last (requests (trace w'))))"
proof (cases "e = RequestException")
  case True
  from get_all_stops[OF assms] True obtain rs where
    "requests (trace w') = requests (trace w) @ rs" "rs \<noteq> []" "\<not> answered web (last rs)"
    by (auto simp: stops_at_first_failure_def)
  with True show ?thesis by simp
next
  case False
  with get_all_error_kind[OF assms] show ?thesis by simp
qed

section \<open>Lemmas about the first failure\<close>

lemma quotes_loop_append:
  "quotes_loop web bs1 ql reg w = (Inr (ql1, reg1), w1) \<Longrightarrow>
     quotes_loop web (bs1 @ bs2) ql reg w = quotes_loop web bs2 ql1 reg1 w1"
proof (induction bs1 arbitrary: ql reg w)
  case Nil
  then show ?case by simp
next
  case (Cons b rest)
  from Cons.prems show ?case
  proof (cases rule: quotes_loop_Cons_cases)
    case (known q a h)
    from Cons.IH[OF known(5)] known(1-4) show ?thesis by simp
  next
    case (new q a h au w2)
    from Cons.IH[OF new(6)] new(1-5) show ?thesis by simp
  qed simp_all
qed

lemma get_all_next_no_href:
  assumes "web BASE_URL = Reply resp0"
    and "chain_prefix web (select_one (ChildOf ''li'' ''next'' ''a'') (BeautifulSoup (content resp0))) pages"
    and "next_after (select_one (ChildOf ''li'' ''next'' ''a'') (BeautifulSoup (content resp0))) pages
           = Some btn"
    and "getitem btn ''href'' = None"
  shows "\<exists>e w'. get_all_quotes_and_authors web w = Some (Inl e, w')"
proof -
  have "(\<exists>e w'. get_all_quotes_and_authors web w = Some (Inl e, w')) \<or>
         (\<exists>aq1 reg1 w1.
            get_all_quotes_and_authors web w =
              (case crawl_loop web
                 (next_after (select_one (ChildOf ''li'' ''next'' ''a'') (BeautifulSoup (content resp0))) pages)
                 aq1 reg1 w1 of
                 None \<Rightarrow> None
               | Some (Inl e, w3) \<Rightarrow> Some (Inl e, w3)
               | Some (Inr r, w3) \<Rightarrow> Some (Inr r, logging_info Finished w3)) \<and>
            (\<forall>x\<in>set reg1. \<exists>b. find (names_author (fst x))
                (quote_blocks (BeautifulSoup (content resp0) # map snd pages)) = Some b \<and> True) \<and>
            set (map fst reg1) =
              {k. \<exists>b\<in>set (quote_blocks (BeautifulSoup (content resp0) # map snd pages)). names_author k b} \<and>
            (\<forall>b\<in>set (quote_blocks (BeautifulSoup (content resp0) # map snd pages)). \<not> malformed_quote b))"
    by (rule get_all_prefix[where R = "\<lambda>b a. True", OF assms(1,2)]) simp
  then show ?thesis
  proof
    assume "\<exists>aq1 reg1 w1.
            get_all_quotes_and_authors web w =
              (case crawl_loop web
                 (next_after (select_one (ChildOf ''li'' ''next'' ''a'') (BeautifulSoup (content resp0))) pages)
                 aq1 reg1 w1 of
                 None \<Rightarrow> None
               | Some (Inl e, w3) \<Rightarrow> Some (Inl e, w3)
               | Some (Inr r, w3) \<Rightarrow> Some (Inr r, logging_info Finished w3)) \<and>
            (\<forall>x\<in>set reg1. \<exists>b. find (names_author (fst x))
                (quote_blocks (BeautifulSoup (content resp0) # map snd pages)) = Some b \<and> True) \<and>
            set (map fst reg1) =
              {k. \<exists>b\<in>set (quote_blocks (BeautifulSoup (content resp0) # map snd pages)). names_author k b} \<and>
            (\<forall>b\<in>set (quote_blocks (BeautifulSoup (content resp0) # map snd pages)). \<not> malformed_quote b)"
    then obtain aq1 reg1 w1 where
      c: "get_all_quotes_and_authors web w =
              (case crawl_loop web
                 (next_after (select_one (ChildOf ''li'' ''next'' ''a'') (BeautifulSoup (content resp0))) pages)
                 aq1 reg1 w1 of
                 None \<Rightarrow> None
               | Some (Inl e, w3) \<Rightarrow> Some (Inl e, w3)
               | Some (Inr r, w3) \<Rightarrow> Some (Inr r, logging_info Finished w3))" by blast
    from assms(4) have "crawl_loop web (Some btn) aq1 reg1 w1 = Some (Inl KeyError, w1)"
      by (subst crawl_loop.simps) simp
    with c assms(3) show ?thesis by simp
  qed
qed

lemma writerow_faults:
  "faults w = replicate k False @ True # fs \<Longrightarrow>
     (k = 0 \<longrightarrow> (\<exists>w'. writerow f row w = (Inl OSError, w') \<and> faults w' = fs)) \<and>
     (0 < k \<longrightarrow> (\<exists>w'. writerow f row w = (Inr (), w') \<and>
                      faults w' = replicate (k - 1) False @ True # fs))"
  by (cases k) (auto simp: writerow_def file_write_def next_fault_def)

lemma open_w_faults:
  "faults w = replicate k False @ True # fs \<Longrightarrow>
     (k = 0 \<longrightarrow> (\<exists>w'. open_w p w = (Inl OSError, w') \<and> faults w' = fs)) \<and>
     (0 < k \<longrightarrow> (\<exists>w'. open_w p w = (Inr (file_of w p), w') \<and>
                      faults w' = replicate (k - 1) False @ True # fs))"
  by (cases k) (auto simp: open_w_def next_fault_def)

lemma writerows_faults:
  "faults w = replicate k False @ True # fs \<Longrightarrow>
     (k < length rows \<longrightarrow> (\<exists>w'. writerows f rows w = (Inl OSError, w') \<and> faults w' = fs)) \<and>
     (length rows \<le> k \<longrightarrow> (\<exists>w'. writerows f rows w = (Inr (), w') \<and>
                      faults w' = replicate (k - length rows) False @ True # fs))"
proof (induction rows arbitrary: w k)
  case Nil
  then show ?case by simp
next
  case (Cons row rows)
  show ?case
  proof (cases k)
    case 0
    with writerow_faults[OF Cons.prems, of f row] show ?thesis by auto
  next
    case (Suc j)
    with writerow_faults[OF Cons.prems, of f row] obtain w1 where
      r: "writerow f row w = (Inr (), w1)" "faults w1 = replicate j False @ True # fs" by auto
    from Cons.IH[OF r(2)] r(1) Suc show ?thesis by auto
  qed
qed

lemma save_table_faults:
  assumes "faults wa = replicate k False @ True # fs"
  shows "(k < length rows + 2 \<longrightarrow>
           (\<exists>w'. (case open_w p wa of
              (Inl e, w') \<Rightarrow> (Inl e, w')
            | (Inr file, w') \<Rightarrow>
                (case writerow file hdr w' of
                   (Inl e, w'') \<Rightarrow> (Inl e, w'')
                 | (Inr u, w'') \<Rightarrow>
                     (case writerows file rows w'' of
                        (Inl e, w3) \<Rightarrow> (Inl e, w3)
                      | (Inr u, w3) \<Rightarrow> (Inr (), logging_info m w3)))) = (Inl OSError, w') \<and>
              faults w' = fs)) \<and>
         (length rows + 2 \<le> k \<longrightarrow>
           (\<exists>w'. (case open_w p wa of
              (Inl e, w') \<Rightarrow> (Inl e, w')
            | (Inr file, w') \<Rightarrow>
                (case writerow file hdr w' of
                   (Inl e, w'') \<Rightarrow> (Inl e, w'')
                 | (Inr u, w'') \<Rightarrow>
                     (case writerows file rows w'' of
                        (Inl e, w3) \<Rightarrow> (Inl e, w3)
                      | (Inr u, w3) \<Rightarrow> (Inr (), logging_info m w3)))) = (Inr (), w') \<and>
              faults w' = replicate (k - (length rows + 2)) False @ True # fs))"
proof (cases k)
  case 0
  with open_w_faults[OF assms, of p] show ?thesis by auto
next
  case (Suc j)
  with open_w_faults[OF assms, of p] obtain w1 where
    o: "open_w p wa = (Inr (file_of wa p), w1)" "faults w1 = replicate j False @ True # fs" by auto
  show ?thesis
  proof (cases j)
    case 0
    with writerow_faults[OF o(2), of "file_of wa p" hdr] o(1) Suc show ?thesis by auto
  next
    case (Suc i)
    with writerow_faults[OF o(2), of "file_of wa p" hdr] obtain w2 where
      h: "writerow (file_of wa p) hdr w1 = (Inr (), w2)" "faults w2 = replicate i False @ True # fs"
      by auto
    from writerows_faults[OF h(2), of rows "file_of wa p"] o(1) h(1) \<open>k = Suc j\<close> Suc
    show ?thesis by auto
  qed
qed

lemma save_quotes_to_csv_faults:
  assumes "faults w = replicate k False @ True # fs"
  shows "(k < length qs + 2 \<longrightarrow>
           (\<exists>w'. save_quotes_to_csv qs p w = (Inl OSError, w') \<and> faults w' = fs)) \<and>
         (length qs + 2 \<le> k \<longrightarrow>
           (\<exists>w'. save_quotes_to_csv qs p w = (Inr (), w') \<and>
              faults w' = replicate (k - (length qs + 2)) False @ True # fs))"
proof -
  from assms have "faults (logging_info (SavingQuotes p) w) = replicate k False @ True # fs"
    by simp
  from save_table_faults[OF this, where rows = "map quote_row qs" and p = p
      and hdr = "[Str ''text'', Str ''author'', Str ''tags'']" and m = "QuotesSaved p"]
  show ?thesis by (simp add: save_quotes_to_csv_def)
qed

lemma save_authors_to_csv_faults:
  assumes "faults w = replicate k False @ True # fs"
  shows "(k < length reg + 2 \<longrightarrow>
           (\<exists>w'. save_authors_to_csv reg p w = (Inl OSError, w') \<and> faults w' = fs)) \<and>
         (length reg + 2 \<le> k \<longrightarrow>
           (\<exists>w'. save_authors_to_csv reg p w = (Inr (), w') \<and>
              faults w' = replicate (k - (length reg + 2)) False @ True # fs))"
proof -
  from assms have "faults (logging_info (SavingAuthors p) w) = replicate k False @ True # fs"
    by simp
  from save_table_faults[OF this, where rows = "map (author_row \<circ> snd) reg" and p = p
      and hdr = "[Str ''name'', Str ''bio'']" and m = "AuthorsSaved p"]
  show ?thesis by (simp add: save_authors_to_csv_def)
qed

lemma main_faults:
  assumes "get_all_quotes_and_authors web w = Some (Inr (qs, reg), w1)"
    and "faults w = replicate k False @ True # fs"
    and "k < length qs + length reg + 4"
  shows "\<exists>w'. main web p w = Some (Inl OSError, w') \<and> faults w' = fs"
proof -
  from get_all_frame[OF assms(1)] assms(2)
  have f1: "faults w1 = replicate k False @ True # fs" by simp
  show ?thesis
  proof (cases "k < length qs + 2")
    case True
    with save_quotes_to_csv_faults[OF f1, of qs p] obtain w' where
      "save_quotes_to_csv qs p w1 = (Inl OSError, w')" "faults w' = fs" by auto
    with assms(1) show ?thesis by (simp add: main_def)
  next
    case False
    with save_quotes_to_csv_faults[OF f1, of qs p] obtain w2 where
      s: "save_quotes_to_csv qs p w1 = (Inr (), w2)"
      "faults w2 = replicate (k - (length qs + 2)) False @ True # fs" by auto
    from False assms(3) have "k - (length qs + 2) < length reg + 2" by simp
    with save_authors_to_csv_faults[OF s(2), of reg OUTPUT_AUTHORS_PATH] obtain w' where
      "save_authors_to_csv reg OUTPUT_AUTHORS_PATH w2 = (Inl OSError, w')" "faults w' = fs" by auto
    with assms(1) s(1) show ?thesis by (simp add: main_def)
  qed
qed

lemma crawl_meets_failure:
  assumes "web BASE_URL = Reply resp0"
    and "chain_prefix web (select_one (ChildOf ''li'' ''next'' ''a'') (BeautifulSoup (content resp0))) pages"
    and "(\<exists>b\<in>set (quote_blocks (BeautifulSoup (content resp0) # map snd pages)). malformed_quote b) \<or>
         (\<exists>k b l h.
            find (names_author k) (quote_blocks (BeautifulSoup (content resp0) # map snd pages)) = Some b \<and>
            select_one (ByName ''a'') b = Some l \<and> getitem l ''href'' = Some h \<and>
            (\<forall>resp. web (BASE_URL @ h) = Reply resp \<longrightarrow>
               select_one (ByClass ''author-title'') (BeautifulSoup (content resp)) = None \<or>
               select_one (ByClass ''author-description'') (BeautifulSoup (content resp)) = None)) \<or>
         (\<exists>btn.
            next_after (select_one (ChildOf ''li'' ''next'' ''a'') (BeautifulSoup (content resp0))) pages
              = Some btn \<and>
            (\<forall>h. getitem btn ''href'' = Some h \<longrightarrow> web (BASE_URL @ h) = NoResponse))"
  shows "\<exists>e w'. get_all_quotes_and_authors web w = Some (Inl e, w')"
proof -
  let ?blocks = "quote_blocks (BeautifulSoup (content resp0) # map snd pages)"
  let ?R = "\<lambda>b (a :: Author). \<exists>l h resp t d. select_one (ByName ''a'') b = Some l \<and>
      getitem l ''href'' = Some h \<and> web (BASE_URL @ h) = Reply resp \<and>
      select_one (ByClass ''author-title'') (BeautifulSoup (content resp)) = Some t \<and>
      select_one (ByClass ''author-description'') (BeautifulSoup (content resp)) = Some d"
  from assms(3) consider
    (block) "\<exists>b\<in>set ?blocks. malformed_quote b"
  | (bio) k b l h where "find (names_author k) ?blocks = Some b"
      "select_one (ByName ''a'') b = Some l" "getitem l ''href'' = Some h"
      "\<forall>resp. web (BASE_URL @ h) = Reply resp \<longrightarrow>
               select_one (ByClass ''author-title'') (BeautifulSoup (content resp)) = None \<or>
               select_one (ByClass ''author-description'') (BeautifulSoup (content resp)) = None"
  | (page) btn where
      "next_after (select_one (ChildOf ''li'' ''next'' ''a'') (BeautifulSoup (content resp0))) pages
         = Some btn"
      "\<forall>h. getitem btn ''href'' = Some h \<longrightarrow> web (BASE_URL @ h) = NoResponse"
    by blast
  then show ?thesis
  proof cases
    case block
    show ?thesis
    proof (rule get_all_bad_block[where R = ?R and web = web and ?resp0.0 = resp0 and pages = pages])
      show "web BASE_URL = Reply resp0" by (rule assms(1))
      show "chain_prefix web (select_one (ChildOf ''li'' ''next'' ''a'') (BeautifulSoup (content resp0))) pages"
        by (rule assms(2))
      show "(\<exists>b\<in>set ?blocks. malformed_quote b) \<or>
         (\<exists>k b. find (names_author k) ?blocks = Some b \<and> (\<forall>x. \<not> ?R b x))"
        using block by blast
    next
      fix b q l h au wa wb
      assume "select_one (ByName ''a'') b = Some l" "getitem l ''href'' = Some h"
        "parse_author_bio web h wa = (Inr au, wb)"
      with parse_author_bio_Inr[of web h wa au wb] show "?R b au" by auto
    qed
  next
    case bio
    from bio(2-4) have "\<forall>x. \<not> ?R b x" by auto
    with bio(1) have bad: "(\<exists>b\<in>set ?blocks. malformed_quote b) \<or>
         (\<exists>k b. find (names_author k) ?blocks = Some b \<and> (\<forall>x. \<not> ?R b x))" by blast
    show ?thesis
    proof (rule get_all_bad_block[where R = ?R and web = web and ?resp0.0 = resp0 and pages = pages])
      show "web BASE_URL = Reply resp0" by (rule assms(1))
      show "chain_prefix web (select_one (ChildOf ''li'' ''next'' ''a'') (BeautifulSoup (content resp0))) pages"
        by (rule assms(2))
      show "(\<exists>b\<in>set ?blocks. malformed_quote b) \<or>
         (\<exists>k b. find (names_author k) ?blocks = Some b \<and> (\<forall>x. \<not> ?R b x))"
        by (rule bad)
    next
      fix b q l h au wa wb
      assume "select_one (ByName ''a'') b = Some l" "getitem l ''href'' = Some h"
        "parse_author_bio web h wa = (Inr au, wb)"
      with parse_author_bio_Inr[of web h wa au wb] show "?R b au" by auto
    qed
  next
    case page
    show ?thesis
    proof (cases "getitem btn ''href''")
      case None
      from get_all_next_no_href[OF assms(1,2) page(1) None] show ?thesis .
    next
      case (Some h)
      with page(2) have "web (BASE_URL @ h) = NoResponse" by simp
      from get_all_next_unreachable[OF assms(1,2) page(1) Some this] show ?thesis .
    qed
  qed
qed

section \<open>The claims\<close>

subsection \<open>C1: one biography fetch per author name\<close>

text \<open>
  Claim C1. In every run of the crawl, whatever its outcome, the author names for which
  a biography fetch is started are pairwise distinct, and the run sends exactly one
  request for the base page, one per further listing page and one per such name. When
  the crawl succeeds, the keys of the registry are exactly these names, in this order,
  and they are the author names that occur on the quotes. On the two-page site (A and
  B on the first page, B and C on the second) the registry has the three keys A, B, C
  and the biography of B is requested once.
\<close>

theorem author_fetched_once_per_name:
  assumes "get_all_quotes_and_authors web w = Some (r, w')"
  shows "\<exists>tr. trace w' = trace w @ tr \<and> distinct (new_author_names tr) \<and>
           length (requests tr) = 1 + length (listing_urls tr) + length (new_author_names tr) \<and>
           (\<forall>qs reg. r = Inr (qs, reg) \<longrightarrow>
              map fst reg = new_author_names tr \<and> set (map fst reg) = author ` set qs)"
proof -
  from get_all_trace[OF assms] obtain tr where tr: "trace w' = trace w @ tr" by blast
  from get_all_names[OF assms] tr
  have n: "distinct (new_author_names tr)"
    "\<forall>qs reg. r = Inr (qs, reg) \<longrightarrow> new_author_names tr = map fst reg"
    by auto
  from get_all_counts[OF assms] tr
  have c: "length (requests tr) = 1 + length (listing_urls tr) + length (new_author_names tr)"
    by simp
  have "set (map fst reg) = author ` set qs" if "r = Inr (qs, reg)" for qs reg
    using get_all_keys[OF assms[unfolded that]] by (simp add: set_encounter_order)
  with tr n c show ?thesis by (intro exI[of _ tr]) auto
qed

theorem author_fetched_once_per_name_witness:
  "get_all_quotes_and_authors demo_site w0 =
     Some (Inr (demo_quotes, demo_registry), w0\<lparr>trace := demo_trace\<rparr>) \<and>
   map author demo_quotes = [''A'', ''B'', ''B'', ''C''] \<and>
   map fst demo_registry = [''A'', ''B'', ''C''] \<and>
   new_author_names demo_trace = [''A'', ''B'', ''C''] \<and>
   length (requests demo_trace) = 5 \<and>
   count_list (requests demo_trace) (BASE_URL @ ''/author/B'') = 1"
  using author_fetched_once_per_name[OF demo_run] demo_run
  by (simp add: demo_quotes_def demo_registry_def demo_trace_def BASE_URL_def w0_def)

subsection \<open>C2: the crawl loop and the pagination chain\<close>

text \<open>
  Claim C2. When the listing pages form a finite chain (the base page, then the pages
  reached by following the next-page links, up to a page without such a link), the
  crawl returns. If it returns a result, the listing pages it went on to are exactly the
  pages of the chain, in order, so the loop ends at the page without a next-page link
  and after processing it, and the accumulated quotes are the quotes of the pages of the
  chain, concatenated in page order. Conversely the crawl returns a result only when
  such a finite chain exists.
\<close>

theorem crawl_follows_pagination_chain:
  "(web BASE_URL = Reply resp \<and> pagination_chain web (BeautifulSoup (content resp)) pages \<longrightarrow>
      (\<exists>r w'. get_all_quotes_and_authors web w = Some (r, w')) \<and>
      (\<forall>qs reg w'. get_all_quotes_and_authors web w = Some (Inr (qs, reg), w') \<longrightarrow>
         map Inr qs = concat (map page_quotes (BeautifulSoup (content resp) # map snd pages)) \<and>
         listing_urls (trace w') = listing_urls (trace w) @ map fst pages))
   \<and> (\<forall>qs reg w'. get_all_quotes_and_authors web w = Some (Inr (qs, reg), w') \<longrightarrow>
         (\<exists>resp pages. web BASE_URL = Reply resp \<and>
            pagination_chain web (BeautifulSoup (content resp)) pages))"
proof (intro conjI impI allI)
  assume a: "web BASE_URL = Reply resp \<and> pagination_chain web (BeautifulSoup (content resp)) pages"
  let ?w1 = "(logging_info Starting w)\<lparr>trace := trace (logging_info Starting w) @ [Request BASE_URL]\<rparr>"
  let ?soup = "BeautifulSoup (content resp)"
  let ?nb = "select_one (ChildOf ''li'' ''next'' ''a'') ?soup"
  from a have g: "requests_get web BASE_URL (logging_info Starting w) = (Inr resp, ?w1)"
    by (intro requests_get_reply) simp
  from a have ch: "chain_from web ?nb pages" by (simp add: pagination_chain_def)
  obtain r2 w2 where p: "get_single_page_quotes web ?soup [] ?w1 = (r2, w2)"
    by (cases "get_single_page_quotes web ?soup [] ?w1")
  show "\<exists>r w'. get_all_quotes_and_authors web w = Some (r, w')"
  proof (cases r2)
    case (Inl e)
    with g p show ?thesis by (simp add: get_all_quotes_and_authors_def)
  next
    case (Inr qr)
    obtain qs reg1 where qr: "qr = (qs, reg1)" by (cases qr)
    from crawl_loop_chain_terminates[OF ch, of qs reg1 w2]
    obtain y where "crawl_loop web ?nb qs reg1 w2 = Some y" by blast
    with g p Inr qr show ?thesis
      by (cases y; cases "fst y") (auto simp: get_all_quotes_and_authors_def)
  qed
  fix qs reg w'
  assume run: "get_all_quotes_and_authors web w = Some (Inr (qs, reg), w')"
  from run show "map Inr qs = concat (map page_quotes (?soup # map snd pages))"
  proof (cases rule: get_all_cases)
    case (ok resp' w1 qs1 reg1 w2' aq reg' w3)
    from ok(1) g have [simp]: "resp' = resp" by simp
    from crawl_loop_chain_result[OF ch] ok(3) ok(4) get_single_page_quotes_quotes[OF ok(2)]
    show ?thesis by (simp add: split_def comp_def)
  qed simp_all
  from run show "listing_urls (trace w') = listing_urls (trace w) @ map fst pages"
  proof (cases rule: get_all_cases)
    case (ok resp' w1 qs1 reg1 w2' aq reg' w3)
    from ok(1) g have [simp]: "resp' = resp" "w1 = ?w1" by simp_all
    from crawl_loop_chain_result[OF ch] ok(3) ok(4,5) get_single_page_quotes_counts[OF ok(2)]
    show ?thesis by simp
  qed simp_all
next
  fix qs reg w'
  assume run: "get_all_quotes_and_authors web w = Some (Inr (qs, reg), w')"
  then show "\<exists>resp pages. web BASE_URL = Reply resp \<and>
            pagination_chain web (BeautifulSoup (content resp)) pages"
  proof (cases rule: get_all_cases)
    case (ok resp' w1 qs1 reg1 w2' aq reg' w3)
    from crawl_loop_success_chain[OF ok(3) refl] requests_get_Inr[OF ok(1)]
    show ?thesis by (auto simp: pagination_chain_def)
  qed simp_all
qed

theorem crawl_follows_pagination_chain_witness:
  "demo_site BASE_URL = Reply (Response 200 page1) \<and>
   pagination_chain demo_site (BeautifulSoup page1) [(BASE_URL @ ''/page/2/'', BeautifulSoup page2)] \<and>
   get_all_quotes_and_authors demo_site w0 =
     Some (Inr (demo_quotes, demo_registry), w0\<lparr>trace := demo_trace\<rparr>) \<and>
   map Inr demo_quotes = page_quotes (BeautifulSoup page1) @ page_quotes (BeautifulSoup page2) \<and>
   listing_urls demo_trace = [BASE_URL @ ''/page/2/'']"
proof -
  have a: "demo_site BASE_URL = Reply (Response 200 page1)"
    by (simp add: demo_site_def)
  have b: "pagination_chain demo_site (BeautifulSoup (content (Response 200 page1)))
      [(BASE_URL @ ''/page/2/'', BeautifulSoup page2)]"
    by (simp add: pagination_chain_def demo_site_def page1_def page2_def BeautifulSoup_def
          select_one_def select_def quote_block_def next_nav_def getitem_def BASE_URL_def)
  from crawl_follows_pagination_chain[of demo_site "Response 200 page1"
      "[(BASE_URL @ ''/page/2/'', BeautifulSoup page2)]" w0] a b demo_run
  show ?thesis by (simp add: w0_def)
qed

subsection \<open>C3: requests that cannot complete\<close>

text \<open>
  Claim C3, as amended. A request that gets no response (DNS failure, refused
  connection, timeout) raises the exception of \<^verbatim>\<open>requests\<close>, a network error; a request
  that gets a response returns it, whatever its status code. Every caller returns at
  once with that error, having sent this one request and no other: the author
  extractor, the walker at the block of a new author (the blocks after it are not
  visited), the crawl loop at the next listing page, and the crawl and the program at
  the base page. The program ends with an error and without writing any file when the
  first block of an author name, on the listing pages the crawl goes through, links to
  a page that cannot be fetched, and when the next listing page cannot be fetched. In
  every run of the program the requests sent stop at the first one without a response:
  the run ends with the network error exactly when its last request got no response,
  every request before it got one, the failed URL was requested once (no retry), and
  no file was written.
\<close>

theorem request_without_response_aborts:
  "(\<forall>web u w. web u = NoResponse \<longrightarrow>
      requests_get web u w = (Inl RequestException, w\<lparr>trace := trace w @ [Request u]\<rparr>))
   \<and> (\<forall>web u w resp. web u = Reply resp \<longrightarrow>
      requests_get web u w = (Inr resp, w\<lparr>trace := trace w @ [Request u]\<rparr>))
   \<and> (\<forall>web h w. web (BASE_URL @ h) = NoResponse \<longrightarrow>
      parse_author_bio web h w =
        (Inl RequestException,
         w\<lparr>trace := trace w @ [Info (FetchingBioFrom (BASE_URL @ h)), Request (BASE_URL @ h)]\<rparr>))
   \<and> (\<forall>web b rest ql reg w q l h.
        parse_single_quote b = Inr q \<and> select_one (ByName ''a'') b = Some l \<and>
        getitem l ''href'' = Some h \<and> author q \<notin> set (map fst reg) \<and>
        web (BASE_URL @ h) = NoResponse \<longrightarrow>
      quotes_loop web (b # rest) ql reg w =
        (Inl RequestException,
         w\<lparr>trace := trace w @ [Info (FetchingBioNew (author q)),
                                 Info (FetchingBioFrom (BASE_URL @ h)), Request (BASE_URL @ h)]\<rparr>))
   \<and> (\<forall>web btn h aq reg w. getitem btn ''href'' = Some h \<and> web (BASE_URL @ h) = NoResponse \<longrightarrow>
      crawl_loop web (Some btn) aq reg w =
        Some (Inl RequestException,
              w\<lparr>trace := trace w @ [Info (FetchingPage (BASE_URL @ h)), Request (BASE_URL @ h)]\<rparr>))
   \<and> (\<forall>web p w. web BASE_URL = NoResponse \<longrightarrow>
      get_all_quotes_and_authors web w =
        Some (Inl RequestException, w\<lparr>trace := trace w @ [Info Starting, Request BASE_URL]\<rparr>) \<and>
      main web p w =
        Some (Inl RequestException, w\<lparr>trace := trace w @ [Info Starting, Request BASE_URL]\<rparr>))
   \<and> (\<forall>web p w resp0 pages k b l h.
        web BASE_URL = Reply resp0 \<and>
        chain_prefix web (select_one (ChildOf ''li'' ''next'' ''a'') (BeautifulSoup (content resp0))) pages \<and>
        find (names_author k) (quote_blocks (BeautifulSoup (content resp0) # map snd pages)) = Some b \<and>
        select_one (ByName ''a'') b = Some l \<and> getitem l ''href'' = Some h \<and>
        web (BASE_URL @ h) = NoResponse \<longrightarrow>
      (\<exists>e w'. main web p w = Some (Inl e, w') \<and> files w' = files w \<and>
              (is_NetworkError e \<or> is_MalformedPageError e)))
   \<and> (\<forall>web p w resp0 pages btn h.
        web BASE_URL = Reply resp0 \<and>
        chain_prefix web (select_one (ChildOf ''li'' ''next'' ''a'') (BeautifulSoup (content resp0))) pages \<and>
        next_after (select_one (ChildOf ''li'' ''next'' ''a'') (BeautifulSoup (content resp0))) pages
          = Some btn \<and>
        getitem btn ''href'' = Some h \<and> web (BASE_URL @ h) = NoResponse \<longrightarrow>
      (\<exists>e w'. main web p w = Some (Inl e, w') \<and> files w' = files w \<and>
              (is_NetworkError e \<or> is_MalformedPageError e)))
   \<and> (\<forall>web p w r w'. main web p w = Some (r, w') \<longrightarrow>
        (\<exists>rs. requests (trace w') = requests (trace w) @ rs \<and>
              stops_at_first_failure web rs (r = Inl RequestException) \<and>
              (r = Inl RequestException \<longrightarrow> count_list rs (last rs) = 1 \<and> files w' = files w)))
   \<and> is_NetworkError RequestException"
proof (intro conjI allI impI)
  fix web :: site and u w
  assume "web u = NoResponse"
  then show "requests_get web u w = (Inl RequestException, w\<lparr>trace := trace w @ [Request u]\<rparr>)"
    by (rule requests_get_no_response)
next
  fix web :: site and u w resp
  assume "web u = Reply resp"
  then show "requests_get web u w = (Inr resp, w\<lparr>trace := trace w @ [Request u]\<rparr>)"
    by (rule requests_get_reply)
next
  fix web :: site and h w
  assume "web (BASE_URL @ h) = NoResponse"
  then show "parse_author_bio web h w =
        (Inl RequestException,
         w\<lparr>trace := trace w @ [Info (FetchingBioFrom (BASE_URL @ h)), Request (BASE_URL @ h)]\<rparr>)"
    by (simp add: parse_author_bio_def requests_get_no_response logging_info_def)
next
  fix web :: site and b rest ql and reg :: registry and w q l h
  assume "parse_single_quote b = Inr q \<and> select_one (ByName ''a'') b = Some l \<and>
        getitem l ''href'' = Some h \<and> author q \<notin> set (map fst reg) \<and>
        web (BASE_URL @ h) = NoResponse"
  then show "quotes_loop web (b # rest) ql reg w =
        (Inl RequestException,
         w\<lparr>trace := trace w @ [Info (FetchingBioNew (author q)),
                                 Info (FetchingBioFrom (BASE_URL @ h)), Request (BASE_URL @ h)]\<rparr>)"
    by (simp add: parse_author_bio_def requests_get_no_response logging_info_def)
next
  fix web :: site and btn h aq and reg :: registry and w
  assume "getitem btn ''href'' = Some h \<and> web (BASE_URL @ h) = NoResponse"
  then show "crawl_loop web (Some btn) aq reg w =
        Some (Inl RequestException,
              w\<lparr>trace := trace w @ [Info (FetchingPage (BASE_URL @ h)), Request (BASE_URL @ h)]\<rparr>)"
    by (subst crawl_loop.simps) (simp add: requests_get_no_response logging_info_def)
next
  fix web :: site and p :: path and w
  assume "web BASE_URL = NoResponse"
  then show "get_all_quotes_and_authors web w =
        Some (Inl RequestException, w\<lparr>trace := trace w @ [Info Starting, Request BASE_URL]\<rparr>)"
    by (simp add: get_all_quotes_and_authors_def requests_get_no_response logging_info_def)
next
  fix web :: site and p :: path and w
  assume "web BASE_URL = NoResponse"
  then show "main web p w =
        Some (Inl RequestException, w\<lparr>trace := trace w @ [Info Starting, Request BASE_URL]\<rparr>)"
    by (simp add: main_def get_all_quotes_and_authors_def requests_get_no_response logging_info_def)
next
  fix web :: site and p :: path and w resp0 pages k b l h
  assume a: "web BASE_URL = Reply resp0 \<and>
        chain_prefix web (select_one (ChildOf ''li'' ''next'' ''a'') (BeautifulSoup (content resp0))) pages \<and>
        find (names_author k) (quote_blocks (BeautifulSoup (content resp0) # map snd pages)) = Some b \<and>
        select_one (ByName ''a'') b = Some l \<and> getitem l ''href'' = Some h \<and>
        web (BASE_URL @ h) = NoResponse"
  let ?R = "\<lambda>b (a :: Author). \<exists>l h resp. select_one (ByName ''a'') b = Some l \<and>
      getitem l ''href'' = Some h \<and> web (BASE_URL @ h) = Reply resp"
  from a have "\<forall>x. \<not> ?R b x" by simp
  with a have bad: "(\<exists>b\<in>set (quote_blocks (BeautifulSoup (content resp0) # map snd pages)). malformed_quote b) \<or>
       (\<exists>k b. find (names_author k) (quote_blocks (BeautifulSoup (content resp0) # map snd pages)) = Some b \<and>
              (\<forall>x. \<not> ?R b x))" by blast
  have "\<exists>e w'. get_all_quotes_and_authors web w = Some (Inl e, w')"
  proof (rule get_all_bad_block[where R = ?R and web = web and ?resp0.0 = resp0 and pages = pages])
    show "web BASE_URL = Reply resp0" using a by simp
    show "chain_prefix web (select_one (ChildOf ''li'' ''next'' ''a'') (BeautifulSoup (content resp0))) pages"
      using a by simp
    show "(\<exists>b\<in>set (quote_blocks (BeautifulSoup (content resp0) # map snd pages)). malformed_quote b) \<or>
       (\<exists>k b. find (names_author k) (quote_blocks (BeautifulSoup (content resp0) # map snd pages)) = Some b \<and>
              (\<forall>x. \<not> ?R b x))" by (rule bad)
  next
    fix b q l h au wa wb
    assume "select_one (ByName ''a'') b = Some l" "getitem l ''href'' = Some h"
      "parse_author_bio web h wa = (Inr au, wb)"
    with parse_author_bio_Inr[of web h wa au wb] show "?R b au" by auto
  qed
  then obtain e w' where g: "get_all_quotes_and_authors web w = Some (Inl e, w')" by blast
  from get_all_frame[OF g] get_all_error_kind[OF g] g
  show "\<exists>e w'. main web p w = Some (Inl e, w') \<and> files w' = files w \<and>
              (is_NetworkError e \<or> is_MalformedPageError e)"
    by (intro exI[of _ e] exI[of _ w']) (auto simp: main_def)
next
  fix web :: site and p :: path and w resp0 pages btn h
  assume a: "web BASE_URL = Reply resp0 \<and>
        chain_prefix web (select_one (ChildOf ''li'' ''next'' ''a'') (BeautifulSoup (content resp0))) pages \<and>
        next_after (select_one (ChildOf ''li'' ''next'' ''a'') (BeautifulSoup (content resp0))) pages
          = Some btn \<and>
        getitem btn ''href'' = Some h \<and> web (BASE_URL @ h) = NoResponse"
  then have "\<exists>e w'. get_all_quotes_and_authors web w = Some (Inl e, w')"
    by (intro get_all_next_unreachable[of web resp0 pages btn h]) simp_all
  then obtain e w' where g: "get_all_quotes_and_authors web w = Some (Inl e, w')" by blast
  from get_all_frame[OF g] get_all_error_kind[OF g] g
  show "\<exists>e w'. main web p w = Some (Inl e, w') \<and> files w' = files w \<and>
              (is_NetworkError e \<or> is_MalformedPageError e)"
    by (intro exI[of _ e] exI[of _ w']) (auto simp: main_def)
next
  fix web :: site and p :: path and w r w'
  assume "main web p w = Some (r, w')"
  then have "\<exists>rs. requests (trace w') = requests (trace w) @ rs \<and>
              stops_at_first_failure web rs (r = Inl RequestException) \<and>
              (r = Inl RequestException \<longrightarrow> files w' = files w)"
  proof (cases rule: main_cases)
    case (crawl_err e)
    from get_all_stops[OF crawl_err(1)] get_all_frame[OF crawl_err(1)] crawl_err(2)
    show ?thesis by auto
  next
    case (quotes_err qs reg w1 e)
    from get_all_stops[OF quotes_err(1)] save_quotes_to_csv_requests[OF quotes_err(2)] quotes_err(3)
    show ?thesis by auto
  next
    case (authors_err qs reg w1 w2 e)
    from get_all_stops[OF authors_err(1)] save_quotes_to_csv_requests[OF authors_err(2)]
      save_authors_to_csv_requests[OF authors_err(3)] authors_err(4)
    show ?thesis by auto
  next
    case (ok qs reg w1 w2 w3)
    from get_all_stops[OF ok(1)] save_quotes_to_csv_requests[OF ok(2)]
      save_authors_to_csv_requests[OF ok(3)] ok(4,5)
    show ?thesis by auto
  qed
  then obtain rs where rs: "requests (trace w') = requests (trace w) @ rs"
    "stops_at_first_failure web rs (r = Inl RequestException)"
    "r = Inl RequestException \<longrightarrow> files w' = files w" by blast
  from rs(2) have "r = Inl RequestException \<longrightarrow> count_list rs (last rs) = 1"
    using stops_last_once[of web rs] by auto
  with rs show "\<exists>rs. requests (trace w') = requests (trace w) @ rs \<and>
              stops_at_first_failure web rs (r = Inl RequestException) \<and>
              (r = Inl RequestException \<longrightarrow> count_list rs (last rs) = 1 \<and> files w' = files w)"
    by blast
next
  show "is_NetworkError RequestException" by simp
qed

theorem request_without_response_aborts_witness:
  "site_down BASE_URL = NoResponse \<and>
   requests_get site_down BASE_URL w0 =
     (Inl RequestException, w0\<lparr>trace := trace w0 @ [Request BASE_URL]\<rparr>) \<and>
   site_b_down BASE_URL = Reply (Response 200 page1) \<and>
   requests_get site_b_down BASE_URL w0 =
     (Inr (Response 200 page1), w0\<lparr>trace := trace w0 @ [Request BASE_URL]\<rparr>) \<and>
   site_b_down (BASE_URL @ ''/author/B'') = NoResponse \<and>
   parse_author_bio site_b_down ''/author/B'' w0 =
     (Inl RequestException,
      w0\<lparr>trace := trace w0 @ [Info (FetchingBioFrom (BASE_URL @ ''/author/B'')),
                                Request (BASE_URL @ ''/author/B'')]\<rparr>) \<and>
   parse_single_quote (quote_block ''q2'' ''B'' ''/author/B'' []) =
     Inr \<lparr>text = ''q2'', author = ''B'', tags = []\<rparr> \<and>
   select_one (ByName ''a'') (quote_block ''q2'' ''B'' ''/author/B'' []) =
     Some (Tag ''a'' [] [(''href'', ''/author/B'')] [NavigableString ''(about)'']) \<and>
   getitem (Tag ''a'' [] [(''href'', ''/author/B'')] [NavigableString ''(about)'']) ''href'' =
     Some ''/author/B'' \<and>
   quotes_loop site_b_down
     [quote_block ''q2'' ''B'' ''/author/B'' [], quote_block ''q3'' ''B'' ''/author/B'' [''z'']]
     [] [(''A'', \<lparr>name = ''A.'', bio = ''bio of A''\<rparr>)] w0 =
     (Inl RequestException,
      w0\<lparr>trace := trace w0 @ [Info (FetchingBioNew ''B''),
                                Info (FetchingBioFrom (BASE_URL @ ''/author/B'')),
                                Request (BASE_URL @ ''/author/B'')]\<rparr>) \<and>
   site_page2_down (BASE_URL @ ''/page/2/'') = NoResponse \<and>
   crawl_loop site_page2_down
     (Some (Tag ''a'' [] [(''href'', ''/page/2/'')] [NavigableString ''Next''])) [] [] w0 =
     Some (Inl RequestException,
           w0\<lparr>trace := trace w0 @ [Info (FetchingPage (BASE_URL @ ''/page/2/'')),
                                     Request (BASE_URL @ ''/page/2/'')]\<rparr>) \<and>
   get_all_quotes_and_authors site_down w0 =
     Some (Inl RequestException, w0\<lparr>trace := trace w0 @ [Info Starting, Request BASE_URL]\<rparr>) \<and>
   main site_down ''quotes.csv'' w0 =
     Some (Inl RequestException, w0\<lparr>trace := trace w0 @ [Info Starting, Request BASE_URL]\<rparr>) \<and>
   chain_prefix site_b_down
     (select_one (ChildOf ''li'' ''next'' ''a'') (BeautifulSoup (content (Response 200 page1)))) [] \<and>
   find (names_author ''B'') (quote_blocks (BeautifulSoup (content (Response 200 page1)) # map snd [])) =
     Some (quote_block ''q2'' ''B'' ''/author/B'' []) \<and>
   (\<exists>e w'. main site_b_down ''quotes.csv'' w0 = Some (Inl e, w') \<and> files w' = files w0 \<and>
           (is_NetworkError e \<or> is_MalformedPageError e)) \<and>
   site_page2_down BASE_URL = Reply (Response 200 page1) \<and>
   next_after (select_one (ChildOf ''li'' ''next'' ''a'') (BeautifulSoup (content (Response 200 page1)))) []
     = Some (Tag ''a'' [] [(''href'', ''/page/2/'')] [NavigableString ''Next'']) \<and>
   (\<exists>e w'. main site_page2_down ''quotes.csv'' w0 = Some (Inl e, w') \<and> files w' = files w0 \<and>
           (is_NetworkError e \<or> is_MalformedPageError e)) \<and>
   fst (the (main site_b_down ''quotes.csv'' w0)) = Inl RequestException \<and>
   requests (trace (snd (the (main site_b_down ''quotes.csv'' w0)))) =
     [BASE_URL, BASE_URL @ ''/author/A'', BASE_URL @ ''/author/B''] \<and>
   stops_at_first_failure site_b_down
     [BASE_URL, BASE_URL @ ''/author/A'', BASE_URL @ ''/author/B''] True \<and>
   count_list [BASE_URL, BASE_URL @ ''/author/A'', BASE_URL @ ''/author/B'']
     (BASE_URL @ ''/author/B'') = 1 \<and>
   files (snd (the (main site_b_down ''quotes.csv'' w0))) = files w0"
proof -
  note t = request_without_response_aborts
  let ?bB = "quote_block ''q2'' ''B'' ''/author/B'' []"
  let ?lB = "Tag ''a'' [] [(''href'', ''/author/B'')] [NavigableString ''(about)'']"
  let ?btn = "Tag ''a'' [] [(''href'', ''/page/2/'')] [NavigableString ''Next'']"
  have h1: "site_down BASE_URL = NoResponse" by (simp add: site_down_def)
  from t[THEN conjunct1, rule_format, where web = site_down and u = BASE_URL and w = w0, OF h1]
  have 1: "requests_get site_down BASE_URL w0 =
     (Inl RequestException, w0\<lparr>trace := trace w0 @ [Request BASE_URL]\<rparr>)" .
  have h2: "site_b_down BASE_URL = Reply (Response 200 page1)"
    by (simp add: site_b_down_def demo_site_def BASE_URL_def)
  from t[THEN conjunct2, THEN conjunct1, rule_format,
      where web = site_b_down and u = BASE_URL and w = w0, OF h2]
  have 2: "requests_get site_b_down BASE_URL w0 =
     (Inr (Response 200 page1), w0\<lparr>trace := trace w0 @ [Request BASE_URL]\<rparr>)" .
  have h3: "site_b_down (BASE_URL @ ''/author/B'') = NoResponse" by (simp add: site_b_down_def)
  from t[THEN conjunct2, THEN conjunct2, THEN conjunct1, rule_format,
      where web = site_b_down and h = "''/author/B''" and w = w0, OF h3]
  have 3: "parse_author_bio site_b_down ''/author/B'' w0 =
     (Inl RequestException,
      w0\<lparr>trace := trace w0 @ [Info (FetchingBioFrom (BASE_URL @ ''/author/B'')),
                                Request (BASE_URL @ ''/author/B'')]\<rparr>)" .
  have h4a: "parse_single_quote ?bB = Inr \<lparr>text = ''q2'', author = ''B'', tags = []\<rparr>"
    by (simp add: quote_block_def parse_single_quote_def select_one_def select_def text_of_def)
  have h4b: "select_one (ByName ''a'') ?bB = Some ?lB"
    by (simp add: quote_block_def select_one_def select_def)
  have h4c: "getitem ?lB ''href'' = Some ''/author/B''" by (simp add: getitem_def)
  have h4d: "author \<lparr>text = ''q2'', author = ''B'', tags = []\<rparr> \<notin>
      set (map fst [(''A'', \<lparr>name = ''A.'', bio = ''bio of A''\<rparr>)])" by simp
  from t[THEN conjunct2, THEN conjunct2, THEN conjunct2, THEN conjunct1, rule_format,
      where web = site_b_down and b = ?bB and l = ?lB and h = "''/author/B''"
        and q = "\<lparr>text = ''q2'', author = ''B'', tags = []\<rparr>"
        and reg = "[(''A'', \<lparr>name = ''A.'', bio = ''bio of A''\<rparr>)]"
        and rest = "[quote_block ''q3'' ''B'' ''/author/B'' [''z'']]" and ql = "[]" and w = w0,
      OF conjI[OF h4a conjI[OF h4b conjI[OF h4c conjI[OF h4d h3]]]]]
  have 4: "quotes_loop site_b_down [?bB, quote_block ''q3'' ''B'' ''/author/B'' [''z'']]
     [] [(''A'', \<lparr>name = ''A.'', bio = ''bio of A''\<rparr>)] w0 =
     (Inl RequestException,
      w0\<lparr>trace := trace w0 @ [Info (FetchingBioNew ''B''),
                                Info (FetchingBioFrom (BASE_URL @ ''/author/B'')),
                                Request (BASE_URL @ ''/author/B'')]\<rparr>)" by simp
  have h5a: "getitem ?btn ''href'' = Some ''/page/2/''" by (simp add: getitem_def)
  have h5b: "site_page2_down (BASE_URL @ ''/page/2/'') = NoResponse"
    by (simp add: site_page2_down_def)
  from t[THEN conjunct2, THEN conjunct2, THEN conjunct2, THEN conjunct2, THEN conjunct1,
      rule_format, where web = site_page2_down and btn = ?btn and h = "''/page/2/''"
        and aq = "[]" and reg = "[]" and w = w0, OF conjI[OF h5a h5b]]
  have 5: "crawl_loop site_page2_down (Some ?btn) [] [] w0 =
     Some (Inl RequestException,
           w0\<lparr>trace := trace w0 @ [Info (FetchingPage (BASE_URL @ ''/page/2/'')),
                                     Request (BASE_URL @ ''/page/2/'')]\<rparr>)" .
  from t[THEN conjunct2, THEN conjunct2, THEN conjunct2, THEN conjunct2, THEN conjunct2,
      THEN conjunct1, rule_format, where web = site_down and w = w0 and p = "''quotes.csv''",
      OF h1]
  have 6: "get_all_quotes_and_authors site_down w0 =
     Some (Inl RequestException, w0\<lparr>trace := trace w0 @ [Info Starting, Request BASE_URL]\<rparr>)"
    "main site_down ''quotes.csv'' w0 =
     Some (Inl RequestException, w0\<lparr>trace := trace w0 @ [Info Starting, Request BASE_URL]\<rparr>)"
    by simp_all
  have h7a: "chain_prefix site_b_down
     (select_one (ChildOf ''li'' ''next'' ''a'') (BeautifulSoup (content (Response 200 page1)))) []"
    by simp
  have h7b: "find (names_author ''B'')
      (quote_blocks (BeautifulSoup (content (Response 200 page1)) # map snd [])) = Some ?bB"
    by (simp add: quote_blocks_def BeautifulSoup_def page1_def select_def quote_block_def
          next_nav_def names_author_def parse_single_quote_def select_one_def text_of_def)
  from t[THEN conjunct2, THEN conjunct2, THEN conjunct2, THEN conjunct2, THEN conjunct2,
      THEN conjunct2, THEN conjunct1, rule_format,
      where web = site_b_down and ?resp0.0 = "Response 200 page1" and pages = "[]"
        and k = "''B''" and b = ?bB and l = ?lB and h = "''/author/B''"
        and p = "''quotes.csv''" and w = w0,
      OF conjI[OF h2 conjI[OF h7a conjI[OF h7b conjI[OF h4b conjI[OF h4c h3]]]]]]
  have 7: "\<exists>e w'. main site_b_down ''quotes.csv'' w0 = Some (Inl e, w') \<and> files w' = files w0 \<and>
           (is_NetworkError e \<or> is_MalformedPageError e)" .
  have h8a: "site_page2_down BASE_URL = Reply (Response 200 page1)"
    by (simp add: site_page2_down_def demo_site_def BASE_URL_def)
  have h8b: "chain_prefix site_page2_down
     (select_one (ChildOf ''li'' ''next'' ''a'') (BeautifulSoup (content (Response 200 page1)))) []"
    by simp
  have h8c: "next_after (select_one (ChildOf ''li'' ''next'' ''a'')
      (BeautifulSoup (content (Response 200 page1)))) [] = Some ?btn"
    by (simp add: next_after_def BeautifulSoup_def page1_def select_one_def select_def
          quote_block_def next_nav_def)
  from t[THEN conjunct2, THEN conjunct2, THEN conjunct2, THEN conjunct2, THEN conjunct2,
      THEN conjunct2, THEN conjunct2, THEN conjunct1, rule_format,
      where web = site_page2_down and ?resp0.0 = "Response 200 page1" and pages = "[]"
        and btn = ?btn and h = "''/page/2/''" and p = "''quotes.csv''" and w = w0,
      OF conjI[OF h8a conjI[OF h8b conjI[OF h8c conjI[OF h5a h5b]]]]]
  have 8: "\<exists>e w'. main site_page2_down ''quotes.csv'' w0 = Some (Inl e, w') \<and> files w' = files w0 \<and>
           (is_NetworkError e \<or> is_MalformedPageError e)" .
  from t[THEN conjunct2, THEN conjunct2, THEN conjunct2, THEN conjunct2, THEN conjunct2,
      THEN conjunct2, THEN conjunct2, THEN conjunct2, THEN conjunct1, rule_format,
      where web = site_b_down and p = "''quotes.csv''" and w = w0, OF site_b_down_run]
  obtain rs where rs:
    "requests [Info Starting, Request BASE_URL, Info (FetchingBioNew ''A''),
               Info (FetchingBioFrom (BASE_URL @ ''/author/A'')),
               Request (BASE_URL @ ''/author/A''), Info (FetchingBioNew ''B''),
               Info (FetchingBioFrom (BASE_URL @ ''/author/B'')),
               Request (BASE_URL @ ''/author/B'')] = requests (trace w0) @ rs"
    "stops_at_first_failure site_b_down rs True" "count_list rs (last rs) = 1"
    by auto
  have tr0: "trace w0 = []" by (simp add: w0_def)
  from rs(1) tr0 have rsv: "rs = [BASE_URL, BASE_URL @ ''/author/A'', BASE_URL @ ''/author/B'']"
    by simp
  have 9: "requests (trace (snd (the (main site_b_down ''quotes.csv'' w0)))) =
       [BASE_URL, BASE_URL @ ''/author/A'', BASE_URL @ ''/author/B'']"
    "stops_at_first_failure site_b_down
       [BASE_URL, BASE_URL @ ''/author/A'', BASE_URL @ ''/author/B''] True"
    "count_list [BASE_URL, BASE_URL @ ''/author/A'', BASE_URL @ ''/author/B'']
       (BASE_URL @ ''/author/B'') = 1"
    "files (snd (the (main site_b_down ''quotes.csv'' w0))) = files w0"
    using rs(2,3) unfolding rsv by (simp_all add: site_b_down_run)
  have 10: "fst (the (main site_b_down ''quotes.csv'' w0)) = Inl RequestException"
    by (simp add: site_b_down_run)
  from h1 1 h2 2 h3 3 h4a h4b h4c 4 h5b 5 6 h7a h7b 7 h8a h8c 8 10 9
  show ?thesis by (intro conjI)
qed

text \<open>
  The claim as stated fails for a non-success status: on a site that answers the base
  URL with status 404 and an empty body the crawl ends normally, with no quotes and no
  authors.
\<close>

theorem status_404_is_no_failure_counterexample:
  "site_404 BASE_URL = Reply (Response 404 []) \<and>
   status_code (Response 404 []) = 404 \<and>
   get_all_quotes_and_authors site_404 w0 =
     Some (Inr ([], []), w0\<lparr>trace := [Info Starting, Request BASE_URL, Info Finished]\<rparr>)"
  by (simp add: get_all_quotes_and_authors_def site_404_def w0_def requests_get_def
        logging_info_def BeautifulSoup_def get_single_page_quotes_def select_def select_one_def
        crawl_loop.simps)

subsection \<open>C4: pages without the expected elements\<close>

text \<open>
  Claim C4, as amended. A quote block is malformed for the walker when it has no text
  element, no author element, no link at all, or a first link without \<^verbatim>\<open>href\<close>: the
  walker reads the first link of the block, whatever it is, as the link to the author.
  On such a block the walker raises at once (\<^verbatim>\<open>AttributeError\<close> from the quote extractor
  without the text or the author element, \<^verbatim>\<open>TypeError\<close> without a link, \<^verbatim>\<open>KeyError\<close>
  without its \<^verbatim>\<open>href\<close>: the malformed-page errors), also when the author is already in the
  registry; on a biography page without title or description the author extractor
  raises \<^verbatim>\<open>AttributeError\<close> after its one request, and so does the walker at the block of
  a new author that links to such a page, without visiting the blocks after it. Nothing
  is skipped: when any listing page that the crawl goes through has a malformed quote
  block, or when the first block of an author name links to a biography page without
  title or description, the program ends with an error and with no file written, and
  the error is a malformed-page error unless a request got no response before; a run
  that succeeds has met no malformed quote block on any listing page.
\<close>

theorem malformed_page_aborts:
  "(\<forall>web b rest ql reg w. malformed_quote b \<longrightarrow>
      (\<exists>e. quotes_loop web (b # rest) ql reg w = (Inl e, w) \<and> is_MalformedPageError e))
   \<and> (\<forall>web h resp w.
        web (BASE_URL @ h) = Reply resp \<and>
        (select_one (ByClass ''author-title'') (BeautifulSoup (content resp)) = None \<or>
         select_one (ByClass ''author-description'') (BeautifulSoup (content resp)) = None) \<longrightarrow>
      parse_author_bio web h w =
        (Inl AttributeError,
         w\<lparr>trace := trace w @ [Info (FetchingBioFrom (BASE_URL @ h)), Request (BASE_URL @ h)]\<rparr>))
   \<and> (\<forall>web b rest ql reg w q l h resp.
        parse_single_quote b = Inr q \<and> select_one (ByName ''a'') b = Some l \<and>
        getitem l ''href'' = Some h \<and> author q \<notin> set (map fst reg) \<and>
        web (BASE_URL @ h) = Reply resp \<and>
        (select_one (ByClass ''author-title'') (BeautifulSoup (content resp)) = None \<or>
         select_one (ByClass ''author-description'') (BeautifulSoup (content resp)) = None) \<longrightarrow>
      quotes_loop web (b # rest) ql reg w =
        (Inl AttributeError,
         w\<lparr>trace := trace w @ [Info (FetchingBioNew (author q)),
                                 Info (FetchingBioFrom (BASE_URL @ h)), Request (BASE_URL @ h)]\<rparr>))
   \<and> (\<forall>web p w resp0 pages b.
        web BASE_URL = Reply resp0 \<and>
        chain_prefix web (select_one (ChildOf ''li'' ''next'' ''a'') (BeautifulSoup (content resp0))) pages \<and>
        b \<in> set (quote_blocks (BeautifulSoup (content resp0) # map snd pages)) \<and>
        malformed_quote b \<longrightarrow>
      (\<exists>e w'. main web p w = Some (Inl e, w') \<and> files w' = files w \<and>
              (is_MalformedPageError e \<or>
               is_NetworkError e \<and> \<not> answered web (last (requests (trace w'))))))
   \<and> (\<forall>web p w resp0 pages k b l h resp.
        web BASE_URL = Reply resp0 \<and>
        chain_prefix web (select_one (ChildOf ''li'' ''next'' ''a'') (BeautifulSoup (content resp0))) pages \<and>
        find (names_author k) (quote_blocks (BeautifulSoup (content resp0) # map snd pages)) = Some b \<and>
        select_one (ByName ''a'') b = Some l \<and> getitem l ''href'' = Some h \<and>
        web (BASE_URL @ h) = Reply resp \<and>
        (select_one (ByClass ''author-title'') (BeautifulSoup (content resp)) = None \<or>
         select_one (ByClass ''author-description'') (BeautifulSoup (content resp)) = None) \<longrightarrow>
      (\<exists>e w'. main web p w = Some (Inl e, w') \<and> files w' = files w \<and>
              (is_MalformedPageError e \<or>
               is_NetworkError e \<and> \<not> answered web (last (requests (trace w'))))))
   \<and> (\<forall>web p w w'. main web p w = Some (Inr (), w') \<longrightarrow>
      (\<exists>resp0 pages. web BASE_URL = Reply resp0 \<and>
         pagination_chain web (BeautifulSoup (content resp0)) pages \<and>
         (\<forall>s\<in>set (BeautifulSoup (content resp0) # map snd pages).
            \<forall>b\<in>set (select (ByClass ''quote'') s). \<not> malformed_quote b)))
   \<and> (\<forall>b. select_one (ByClass ''text'') b = None \<or> select_one (ByClass ''author'') b = None \<longrightarrow>
      parse_single_quote b = Inl AttributeError)
   \<and> (\<forall>web b rest ql reg w q.
        parse_single_quote b = Inr q \<and> select_one (ByName ''a'') b = None \<longrightarrow>
      quotes_loop web (b # rest) ql reg w = (Inl TypeError, w))
   \<and> (\<forall>web b rest ql reg w q l.
        parse_single_quote b = Inr q \<and> select_one (ByName ''a'') b = Some l \<and>
        getitem l ''href'' = None \<longrightarrow>
      quotes_loop web (b # rest) ql reg w = (Inl KeyError, w))
   \<and> is_MalformedPageError AttributeError \<and> is_MalformedPageError TypeError
   \<and> is_MalformedPageError KeyError"
proof (intro conjI allI impI)
  fix web :: site and b rest ql and reg :: registry and w
  assume "malformed_quote b"
  then show "\<exists>e. quotes_loop web (b # rest) ql reg w = (Inl e, w) \<and> is_MalformedPageError e"
    by (rule quotes_loop_malformed_head)
next
  fix web :: site and h resp w
  assume "web (BASE_URL @ h) = Reply resp \<and>
        (select_one (ByClass ''author-title'') (BeautifulSoup (content resp)) = None \<or>
         select_one (ByClass ''author-description'') (BeautifulSoup (content resp)) = None)"
  then show "parse_author_bio web h w =
        (Inl AttributeError,
         w\<lparr>trace := trace w @ [Info (FetchingBioFrom (BASE_URL @ h)), Request (BASE_URL @ h)]\<rparr>)"
    by (auto simp: parse_author_bio_def requests_get_reply logging_info_def Let_def
             split: option.splits)
next
  fix web :: site and b rest ql and reg :: registry and w q l h resp
  assume "parse_single_quote b = Inr q \<and> select_one (ByName ''a'') b = Some l \<and>
        getitem l ''href'' = Some h \<and> author q \<notin> set (map fst reg) \<and>
        web (BASE_URL @ h) = Reply resp \<and>
        (select_one (ByClass ''author-title'') (BeautifulSoup (content resp)) = None \<or>
         select_one (ByClass ''author-description'') (BeautifulSoup (content resp)) = None)"
  then show "quotes_loop web (b # rest) ql reg w =
        (Inl AttributeError,
         w\<lparr>trace := trace w @ [Info (FetchingBioNew (author q)),
                                 Info (FetchingBioFrom (BASE_URL @ h)), Request (BASE_URL @ h)]\<rparr>)"
    by (auto simp: parse_author_bio_def requests_get_reply logging_info_def Let_def
             split: option.splits)
next
  fix web :: site and p :: path and w resp0 pages b
  assume a: "web BASE_URL = Reply resp0 \<and>
        chain_prefix web (select_one (ChildOf ''li'' ''next'' ''a'') (BeautifulSoup (content resp0))) pages \<and>
        b \<in> set (quote_blocks (BeautifulSoup (content resp0) # map snd pages)) \<and>
        malformed_quote b"
  have "\<exists>e w'. get_all_quotes_and_authors web w = Some (Inl e, w')"
  proof (rule get_all_bad_block[where R = "\<lambda>b a. True" and web = web and ?resp0.0 = resp0
        and pages = pages])
    show "web BASE_URL = Reply resp0" using a by simp
    show "chain_prefix web (select_one (ChildOf ''li'' ''next'' ''a'') (BeautifulSoup (content resp0))) pages"
      using a by simp
    show "(\<exists>b\<in>set (quote_blocks (BeautifulSoup (content resp0) # map snd pages)). malformed_quote b) \<or>
       (\<exists>k b. find (names_author k) (quote_blocks (BeautifulSoup (content resp0) # map snd pages)) = Some b \<and>
              (\<forall>a. \<not> True))" using a by blast
  qed simp
  then obtain e w' where g: "get_all_quotes_and_authors web w = Some (Inl e, w')" by blast
  from get_all_frame[OF g] get_all_error_cause[OF g] g
  show "\<exists>e w'. main web p w = Some (Inl e, w') \<and> files w' = files w \<and>
              (is_MalformedPageError e \<or>
               is_NetworkError e \<and> \<not> answered web (last (requests (trace w'))))"
    by (intro exI[of _ e] exI[of _ w']) (simp add: main_def)
next
  fix web :: site and p :: path and w resp0 pages k b l h resp
  assume a: "web BASE_URL = Reply resp0 \<and>
        chain_prefix web (select_one (ChildOf ''li'' ''next'' ''a'') (BeautifulSoup (content resp0))) pages \<and>
        find (names_author k) (quote_blocks (BeautifulSoup (content resp0) # map snd pages)) = Some b \<and>
        select_one (ByName ''a'') b = Some l \<and> getitem l ''href'' = Some h \<and>
        web (BASE_URL @ h) = Reply resp \<and>
        (select_one (ByClass ''author-title'') (BeautifulSoup (content resp)) = None \<or>
         select_one (ByClass ''author-description'') (BeautifulSoup (content resp)) = None)"
  let ?R = "\<lambda>b (a :: Author). \<exists>l h resp t d. select_one (ByName ''a'') b = Some l \<and>
      getitem l ''href'' = Some h \<and> web (BASE_URL @ h) = Reply resp \<and>
      select_one (ByClass ''author-title'') (BeautifulSoup (content resp)) = Some t \<and>
      select_one (ByClass ''author-description'') (BeautifulSoup (content resp)) = Some d"
  from a have "\<forall>x. \<not> ?R b x" by auto
  with a have bad: "(\<exists>b\<in>set (quote_blocks (BeautifulSoup (content resp0) # map snd pages)). malformed_quote b) \<or>
       (\<exists>k b. find (names_author k) (quote_blocks (BeautifulSoup (content resp0) # map snd pages)) = Some b \<and>
              (\<forall>x. \<not> ?R b x))" by blast
  have "\<exists>e w'. get_all_quotes_and_authors web w = Some (Inl e, w')"
  proof (rule get_all_bad_block[where R = ?R and web = web and ?resp0.0 = resp0 and pages = pages])
    show "web BASE_URL = Reply resp0" using a by simp
    show "chain_prefix web (select_one (ChildOf ''li'' ''next'' ''a'') (BeautifulSoup (content resp0))) pages"
      using a by simp
    show "(\<exists>b\<in>set (quote_blocks (BeautifulSoup (content resp0) # map snd pages)). malformed_quote b) \<or>
       (\<exists>k b. find (names_author k) (quote_blocks (BeautifulSoup (content resp0) # map snd pages)) = Some b \<and>
              (\<forall>x. \<not> ?R b x))" by (rule bad)
  next
    fix b q l h au wa wb
    assume "select_one (ByName ''a'') b = Some l" "getitem l ''href'' = Some h"
      "parse_author_bio web h wa = (Inr au, wb)"
    with parse_author_bio_Inr[of web h wa au wb] show "?R b au" by auto
  qed
  then obtain e w' where g: "get_all_quotes_and_authors web w = Some (Inl e, w')" by blast
  from get_all_frame[OF g] get_all_error_cause[OF g] g
  show "\<exists>e w'. main web p w = Some (Inl e, w') \<and> files w' = files w \<and>
              (is_MalformedPageError e \<or>
               is_NetworkError e \<and> \<not> answered web (last (requests (trace w'))))"
    by (intro exI[of _ e] exI[of _ w']) (simp add: main_def)
next
  fix web :: site and p :: path and w w'
  assume "main web p w = Some (Inr (), w')"
  then show "\<exists>resp0 pages. web BASE_URL = Reply resp0 \<and>
         pagination_chain web (BeautifulSoup (content resp0)) pages \<and>
         (\<forall>s\<in>set (BeautifulSoup (content resp0) # map snd pages).
            \<forall>b\<in>set (select (ByClass ''quote'') s). \<not> malformed_quote b)"
  proof (cases rule: main_cases)
    case (ok qs reg w1 w2 w3)
    from ok(1) show ?thesis
    proof (cases rule: get_all_cases)
      case (ok resp0 wa qs1 reg1 wb aq reg' wc)
      from crawl_loop_success_wellformed[OF ok(3) refl] obtain pages where
        p: "chain_from web (select_one (ChildOf ''li'' ''next'' ''a'') (BeautifulSoup (content resp0))) pages"
        "\<forall>s\<in>set (map snd pages). \<forall>b\<in>set (select (ByClass ''quote'') s). \<not> malformed_quote b"
        by blast
      from quotes_loop_no_malformed[OF ok(2)[unfolded get_single_page_quotes_def]]
      have "\<forall>b\<in>set (select (ByClass ''quote'') (BeautifulSoup (content resp0))). \<not> malformed_quote b" .
      with p requests_get_Inr[OF ok(1)] show ?thesis
        by (intro exI[of _ resp0] exI[of _ pages]) (simp add: pagination_chain_def)
    qed simp_all
  qed simp_all
next
  fix b
  assume "select_one (ByClass ''text'') b = None \<or> select_one (ByClass ''author'') b = None"
  then show "parse_single_quote b = Inl AttributeError"
    by (auto simp: parse_single_quote_def split: option.splits)
next
  fix web :: site and b rest ql and reg :: registry and w :: world and q
  assume "parse_single_quote b = Inr q \<and> select_one (ByName ''a'') b = None"
  then show "quotes_loop web (b # rest) ql reg w = (Inl TypeError, w)" by simp
next
  fix web :: site and b rest ql and reg :: registry and w :: world and q l
  assume "parse_single_quote b = Inr q \<and> select_one (ByName ''a'') b = Some l \<and>
        getitem l ''href'' = None"
  then show "quotes_loop web (b # rest) ql reg w = (Inl KeyError, w)" by simp
qed simp_all

theorem malformed_page_aborts_witness:
  "malformed_quote linkless_block \<and>
   quotes_loop demo_site [linkless_block] [] [] w0 = (Inl TypeError, w0) \<and>
   is_MalformedPageError TypeError \<and>
   site_bio_untitled (BASE_URL @ ''/author/A'') =
     Reply (Response 200 [Tag ''h3'' [''author-title''] [] [NavigableString ''A'']]) \<and>
   select_one (ByClass ''author-description'')
     (BeautifulSoup (content (Response 200 [Tag ''h3'' [''author-title''] [] [NavigableString ''A'']])))
     = None \<and>
   parse_author_bio site_bio_untitled ''/author/A'' w0 =
     (Inl AttributeError,
      w0\<lparr>trace := trace w0 @ [Info (FetchingBioFrom (BASE_URL @ ''/author/A'')),
                                Request (BASE_URL @ ''/author/A'')]\<rparr>) \<and>
   parse_single_quote (quote_block ''q1'' ''A'' ''/author/A'' [''x'', ''y'']) =
     Inr \<lparr>text = ''q1'', author = ''A'', tags = [''x'', ''y'']\<rparr> \<and>
   select_one (ByName ''a'') (quote_block ''q1'' ''A'' ''/author/A'' [''x'', ''y'']) =
     Some (Tag ''a'' [] [(''href'', ''/author/A'')] [NavigableString ''(about)'']) \<and>
   getitem (Tag ''a'' [] [(''href'', ''/author/A'')] [NavigableString ''(about)'']) ''href'' =
     Some ''/author/A'' \<and>
   quotes_loop site_bio_untitled
     [quote_block ''q1'' ''A'' ''/author/A'' [''x'', ''y''], quote_block ''q2'' ''B'' ''/author/B'' []]
     [] [] w0 =
     (Inl AttributeError,
      w0\<lparr>trace := trace w0 @ [Info (FetchingBioNew ''A''),
                                Info (FetchingBioFrom (BASE_URL @ ''/author/A'')),
                                Request (BASE_URL @ ''/author/A'')]\<rparr>) \<and>
   site_linkless_page2 BASE_URL = Reply (Response 200 page1) \<and>
   chain_prefix site_linkless_page2
     (select_one (ChildOf ''li'' ''next'' ''a'') (BeautifulSoup (content (Response 200 page1))))
     [(BASE_URL @ ''/page/2/'',
       BeautifulSoup [quote_block ''q3'' ''B'' ''/author/B'' [''z''], linkless_block])] \<and>
   linkless_block \<in> set (quote_blocks (BeautifulSoup (content (Response 200 page1)) #
     map snd [(BASE_URL @ ''/page/2/'',
       BeautifulSoup [quote_block ''q3'' ''B'' ''/author/B'' [''z''], linkless_block])])) \<and>
   (\<exists>e w'. main site_linkless_page2 ''quotes.csv'' w0 = Some (Inl e, w') \<and> files w' = files w0 \<and>
      (is_MalformedPageError e \<or>
       is_NetworkError e \<and> \<not> answered site_linkless_page2 (last (requests (trace w'))))) \<and>
   fst (the (main site_linkless_page2 ''quotes.csv'' w0)) = Inl TypeError \<and>
   site_bio_untitled BASE_URL = Reply (Response 200 page1) \<and>
   chain_prefix site_bio_untitled
     (select_one (ChildOf ''li'' ''next'' ''a'') (BeautifulSoup (content (Response 200 page1)))) [] \<and>
   find (names_author ''A'') (quote_blocks (BeautifulSoup (content (Response 200 page1)) # map snd [])) =
     Some (quote_block ''q1'' ''A'' ''/author/A'' [''x'', ''y'']) \<and>
   (\<exists>e w'. main site_bio_untitled ''quotes.csv'' w0 = Some (Inl e, w') \<and> files w' = files w0 \<and>
      (is_MalformedPageError e \<or>
       is_NetworkError e \<and> \<not> answered site_bio_untitled (last (requests (trace w'))))) \<and>
   main site_bio_untitled ''quotes.csv'' w0 =
     Some (Inl AttributeError,
           w0\<lparr>trace := [Info Starting, Request BASE_URL, Info (FetchingBioNew ''A''),
                         Info (FetchingBioFrom (BASE_URL @ ''/author/A'')),
                         Request (BASE_URL @ ''/author/A'')]\<rparr>) \<and>
   (\<exists>w'. main demo_site ''quotes.csv'' w0 = Some (Inr (), w')) \<and>
   (\<exists>resp0 pages. demo_site BASE_URL = Reply resp0 \<and>
      pagination_chain demo_site (BeautifulSoup (content resp0)) pages \<and>
      list_all (\<lambda>s. list_all (\<lambda>b. \<not> malformed_quote b) (select (ByClass ''quote'') s))
        (BeautifulSoup (content resp0) # map snd pages)) \<and>
   select_one (ByClass ''text'') (Tag ''div'' [''quote''] [] []) = None \<and>
   parse_single_quote (Tag ''div'' [''quote''] [] []) = Inl AttributeError \<and>
   parse_single_quote linkless_block = Inr \<lparr>text = ''q'', author = ''A'', tags = []\<rparr> \<and>
   select_one (ByName ''a'') linkless_block = None \<and>
   quotes_loop demo_site [linkless_block, quote_block ''q2'' ''B'' ''/author/B'' []] []
     [(''A'', \<lparr>name = ''A.'', bio = ''bio of A''\<rparr>)] w0 = (Inl TypeError, w0) \<and>
   parse_single_quote
     (Tag ''div'' [''quote''] []
        [Tag ''span'' [''text''] [] [NavigableString ''q''],
         Tag ''small'' [''author''] [] [NavigableString ''A''], Tag ''a'' [] [] []]) =
     Inr \<lparr>text = ''q'', author = ''A'', tags = []\<rparr> \<and>
   getitem (Tag ''a'' [] [] []) ''href'' = None \<and>
   quotes_loop demo_site
     [Tag ''div'' [''quote''] []
        [Tag ''span'' [''text''] [] [NavigableString ''q''],
         Tag ''small'' [''author''] [] [NavigableString ''A''], Tag ''a'' [] [] []],
      quote_block ''q2'' ''B'' ''/author/B'' []] []
     [(''A'', \<lparr>name = ''A.'', bio = ''bio of A''\<rparr>)] w0 = (Inl KeyError, w0)"
proof -
  note t = malformed_page_aborts
  let ?bA = "quote_block ''q1'' ''A'' ''/author/A'' [''x'', ''y'']"
  let ?lA = "Tag ''a'' [] [(''href'', ''/author/A'')] [NavigableString ''(about)'']"
  let ?respA = "Response 200 [Tag ''h3'' [''author-title''] [] [NavigableString ''A'']]"
  let ?p2 = "[(BASE_URL @ ''/page/2/'',
       BeautifulSoup [quote_block ''q3'' ''B'' ''/author/B'' [''z''], linkless_block])]"
  have h1: "malformed_quote linkless_block"
    by (simp add: malformed_quote_def linkless_block_def select_one_def select_def)
  from t[THEN conjunct1, rule_format, where web = demo_site and b = linkless_block
      and rest = "[]" and ql = "[]" and reg = "[]" and w = w0, OF h1]
  have "\<exists>e. quotes_loop demo_site [linkless_block] [] [] w0 = (Inl e, w0) \<and>
      is_MalformedPageError e" .
  moreover have "fst (quotes_loop demo_site [linkless_block] [] [] w0) = Inl TypeError"
    by (simp add: linkless_block_def parse_single_quote_def select_one_def select_def
          text_of_def get_text_strip_def)
  ultimately have 1: "quotes_loop demo_site [linkless_block] [] [] w0 = (Inl TypeError, w0)"
    "is_MalformedPageError TypeError" by auto
  have h2a: "site_bio_untitled (BASE_URL @ ''/author/A'') = Reply ?respA"
    by (simp add: site_bio_untitled_def)
  have h2b: "select_one (ByClass ''author-description'') (BeautifulSoup (content ?respA)) = None"
    by (simp add: BeautifulSoup_def select_one_def select_def)
  from t[THEN conjunct2, THEN conjunct1, rule_format, where web = site_bio_untitled
      and h = "''/author/A''" and resp = ?respA and w = w0, OF conjI[OF h2a disjI2[OF h2b]]]
  have 2: "parse_author_bio site_bio_untitled ''/author/A'' w0 =
     (Inl AttributeError,
      w0\<lparr>trace := trace w0 @ [Info (FetchingBioFrom (BASE_URL @ ''/author/A'')),
                                Request (BASE_URL @ ''/author/A'')]\<rparr>)" .
  have h3a: "parse_single_quote ?bA = Inr \<lparr>text = ''q1'', author = ''A'', tags = [''x'', ''y'']\<rparr>"
    by (simp add: quote_block_def parse_single_quote_def select_one_def select_def text_of_def
          get_text_strip_def strip_def isspace_def)
  have h3b: "select_one (ByName ''a'') ?bA = Some ?lA"
    by (simp add: quote_block_def select_one_def select_def)
  have h3c: "getitem ?lA ''href'' = Some ''/author/A''" by (simp add: getitem_def)
  have h3d: "author \<lparr>text = ''q1'', author = ''A'', tags = [''x'', ''y'']\<rparr> \<notin>
      set (map fst ([] :: registry))" by simp
  from t[THEN conjunct2, THEN conjunct2, THEN conjunct1, rule_format,
      where web = site_bio_untitled and b = ?bA and l = ?lA and h = "''/author/A''"
        and q = "\<lparr>text = ''q1'', author = ''A'', tags = [''x'', ''y'']\<rparr>" and reg = "[]"
        and rest = "[quote_block ''q2'' ''B'' ''/author/B'' []]" and ql = "[]" and w = w0
        and resp = ?respA,
      OF conjI[OF h3a conjI[OF h3b conjI[OF h3c conjI[OF h3d conjI[OF h2a disjI2[OF h2b]]]]]]]
  have 3: "quotes_loop site_bio_untitled [?bA, quote_block ''q2'' ''B'' ''/author/B'' []] [] [] w0 =
     (Inl AttributeError,
      w0\<lparr>trace := trace w0 @ [Info (FetchingBioNew ''A''),
                                Info (FetchingBioFrom (BASE_URL @ ''/author/A'')),
                                Request (BASE_URL @ ''/author/A'')]\<rparr>)" by simp
  have h4a: "site_linkless_page2 BASE_URL = Reply (Response 200 page1)"
    by (simp add: site_linkless_page2_def demo_site_def BASE_URL_def)
  have h4b: "chain_prefix site_linkless_page2
     (select_one (ChildOf ''li'' ''next'' ''a'') (BeautifulSoup (content (Response 200 page1)))) ?p2"
    by (simp add: BeautifulSoup_def page1_def select_one_def select_def quote_block_def
          next_nav_def getitem_def site_linkless_page2_def)
  have h4c: "linkless_block \<in> set (quote_blocks (BeautifulSoup (content (Response 200 page1)) #
     map snd ?p2))"
    by (simp add: quote_blocks_def BeautifulSoup_def page1_def select_def quote_block_def
          next_nav_def linkless_block_def)
  from t[THEN conjunct2, THEN conjunct2, THEN conjunct2, THEN conjunct1, rule_format,
      where web = site_linkless_page2 and ?resp0.0 = "Response 200 page1" and pages = ?p2
        and b = linkless_block and p = "''quotes.csv''" and w = w0,
      OF conjI[OF h4a conjI[OF h4b conjI[OF h4c h1]]]]
  have 4: "\<exists>e w'. main site_linkless_page2 ''quotes.csv'' w0 = Some (Inl e, w') \<and> files w' = files w0 \<and>
      (is_MalformedPageError e \<or>
       is_NetworkError e \<and> \<not> answered site_linkless_page2 (last (requests (trace w'))))" .
  have r4: "fst (the (main site_linkless_page2 ''quotes.csv'' w0)) = Inl TypeError"
    by (simp add: site_linkless_page2_run)
  have h5a: "site_bio_untitled BASE_URL = Reply (Response 200 page1)"
    by (simp add: site_bio_untitled_def demo_site_def BASE_URL_def)
  have h5b: "chain_prefix site_bio_untitled
     (select_one (ChildOf ''li'' ''next'' ''a'') (BeautifulSoup (content (Response 200 page1)))) []"
    by simp
  have h5c: "find (names_author ''A'')
      (quote_blocks (BeautifulSoup (content (Response 200 page1)) # map snd [])) = Some ?bA"
    by (simp add: quote_blocks_def BeautifulSoup_def page1_def select_def quote_block_def
          next_nav_def names_author_def parse_single_quote_def select_one_def text_of_def)
  from t[THEN conjunct2, THEN conjunct2, THEN conjunct2, THEN conjunct2, THEN conjunct1,
      rule_format,
      where web = site_bio_untitled and ?resp0.0 = "Response 200 page1" and pages = "[]"
        and k = "''A''" and b = ?bA and l = ?lA and h = "''/author/A''" and resp = ?respA
        and p = "''quotes.csv''" and w = w0,
      OF conjI[OF h5a conjI[OF h5b conjI[OF h5c conjI[OF h3b conjI[OF h3c
           conjI[OF h2a disjI2[OF h2b]]]]]]]]
  have 5: "\<exists>e w'. main site_bio_untitled ''quotes.csv'' w0 = Some (Inl e, w') \<and> files w' = files w0 \<and>
      (is_MalformedPageError e \<or>
       is_NetworkError e \<and> \<not> answered site_bio_untitled (last (requests (trace w'))))" .
  from demo_main obtain w' where m: "main demo_site ''quotes.csv'' w0 = Some (Inr (), w')"
    by blast
  from t[THEN conjunct2, THEN conjunct2, THEN conjunct2, THEN conjunct2, THEN conjunct2,
      THEN conjunct1, rule_format, OF m]
  have 6: "\<exists>resp0 pages. demo_site BASE_URL = Reply resp0 \<and>
      pagination_chain demo_site (BeautifulSoup (content resp0)) pages \<and>
      list_all (\<lambda>s. list_all (\<lambda>b. \<not> malformed_quote b) (select (ByClass ''quote'') s))
        (BeautifulSoup (content resp0) # map snd pages)"
    by (simp only: list_all_iff)
  from m have 7: "\<exists>w'. main demo_site ''quotes.csv'' w0 = Some (Inr (), w')" by blast
  note t8 = t[THEN conjunct2, THEN conjunct2, THEN conjunct2, THEN conjunct2, THEN conjunct2,
      THEN conjunct2]
  let ?nohref = "Tag ''div'' [''quote''] []
        [Tag ''span'' [''text''] [] [NavigableString ''q''],
         Tag ''small'' [''author''] [] [NavigableString ''A''], Tag ''a'' [] [] []]"
  have h8: "select_one (ByClass ''text'') (Tag ''div'' [''quote''] [] []) = None"
    by (simp add: select_one_def select_def)
  note 8 = t8[THEN conjunct1, rule_format, OF disjI1[OF h8]]
  have h9a: "parse_single_quote linkless_block = Inr \<lparr>text = ''q'', author = ''A'', tags = []\<rparr>"
    by (simp add: linkless_block_def parse_single_quote_def select_one_def select_def text_of_def)
  have h9b: "select_one (ByName ''a'') linkless_block = None"
    by (simp add: linkless_block_def select_one_def select_def)
  note 9 = t8[THEN conjunct2, THEN conjunct1, rule_format, OF conjI[OF h9a h9b],
      where web = demo_site and rest = "[quote_block ''q2'' ''B'' ''/author/B'' []]" and ql = "[]"
        and reg = "[(''A'', \<lparr>name = ''A.'', bio = ''bio of A''\<rparr>)]" and w = w0]
  have h10a: "parse_single_quote ?nohref = Inr \<lparr>text = ''q'', author = ''A'', tags = []\<rparr>"
    by (simp add: parse_single_quote_def select_one_def select_def text_of_def)
  have h10b: "select_one (ByName ''a'') ?nohref = Some (Tag ''a'' [] [] [])"
    by (simp add: select_one_def select_def)
  have h10c: "getitem (Tag ''a'' [] [] []) ''href'' = None" by (simp add: getitem_def)
  note 10 = t8[THEN conjunct2, THEN conjunct2, THEN conjunct1, rule_format,
      OF conjI[OF h10a conjI[OF h10b h10c]],
      where web = demo_site and rest = "[quote_block ''q2'' ''B'' ''/author/B'' []]" and ql = "[]"
        and reg = "[(''A'', \<lparr>name = ''A.'', bio = ''bio of A''\<rparr>)]" and w = w0]
  from h1 1 h2a h2b 2 h3a h3b h3c 3 h4a h4b h4c 4 r4 h5a h5b h5c 5 site_bio_untitled_run 7 6
    h8 8 h9a h9b 9 h10a h10c 10
  show ?thesis by (intro conjI)
qed

text \<open>
  The claim as stated fails for a quote block that lacks the link to the author but has
  another link: the block below has only a tag link, its author is already in the
  registry, and the crawl succeeds with the quote in its result.
\<close>

theorem tag_link_taken_as_author_link_counterexample:
  "list_all (has_class ''tag'') (select (ByName ''a'') taglink_block) \<and>
   site_taglink BASE_URL =
     Reply (Response 200 [quote_block ''q1'' ''A'' ''/author/A'' [], taglink_block]) \<and>
   get_all_quotes_and_authors site_taglink w0 =
     Some (Inr ([\<lparr>text = ''q1'', author = ''A'', tags = []\<rparr>,
                 \<lparr>text = ''q2'', author = ''A'', tags = [''x'']\<rparr>],
                [(''A'', \<lparr>name = ''A.'', bio = ''bio of A''\<rparr>)]),
           w0\<lparr>trace := [Info Starting, Request BASE_URL, Info (FetchingBioNew ''A''),
                         Info (FetchingBioFrom (BASE_URL @ ''/author/A'')),
                         Request (BASE_URL @ ''/author/A''), Info Finished]\<rparr>)"
  by (simp add: get_all_quotes_and_authors_def site_taglink_def demo_site_def w0_def
        requests_get_def logging_info_def BASE_URL_def BeautifulSoup_def
        get_single_page_quotes_def select_def select_one_def quote_block_def taglink_block_def
        bio_page_def parse_single_quote_def parse_author_bio_def getitem_def text_of_def
        get_text_strip_def strip_def isspace_def crawl_loop.simps)

subsection \<open>C5: the URLs that are fetched\<close>

text \<open>
  Claim C5, as amended. The URL requested for an author biography is the base URL
  string followed by the link taken from the quote block, and the URL requested for a
  next listing page is the base URL string followed by the \<^verbatim>\<open>href\<close> of the next-page
  link: the link is appended as it is, it is not resolved against the base URL.
\<close>

theorem fetched_url_is_base_followed_by_link:
  "(parse_author_bio web h w = (r, w') \<longrightarrow>
      requests (trace w') = requests (trace w) @ [BASE_URL @ h])
   \<and> (parse_single_quote b = Inr q \<and> select_one (ByName ''a'') b = Some l \<and>
       getitem l ''href'' = Some h2 \<and> author q \<notin> set (map fst reg) \<and>
       quotes_loop web (b # rest) ql reg w = (r2, w2) \<longrightarrow>
      (\<exists>rs. requests (trace w2) = requests (trace w) @ (BASE_URL @ h2) # rs))
   \<and> (getitem btn ''href'' = Some h3 \<and> crawl_loop web (Some btn) aq reg3 w = Some (r3, w3) \<longrightarrow>
      (\<exists>rs. requests (trace w3) = requests (trace w) @ (BASE_URL @ h3) # rs))"
proof (intro conjI impI)
  assume "parse_author_bio web h w = (r, w')"
  from parse_author_bio_world[OF this]
  show "requests (trace w') = requests (trace w) @ [BASE_URL @ h]" by simp
next
  assume "parse_single_quote b = Inr q \<and> select_one (ByName ''a'') b = Some l \<and>
       getitem l ''href'' = Some h2 \<and> author q \<notin> set (map fst reg) \<and>
       quotes_loop web (b # rest) ql reg w = (r2, w2)"
  then show "\<exists>rs. requests (trace w2) = requests (trace w) @ (BASE_URL @ h2) # rs"
    using quotes_loop_first_request by blast
next
  assume "getitem btn ''href'' = Some h3 \<and> crawl_loop web (Some btn) aq reg3 w = Some (r3, w3)"
  then show "\<exists>rs. requests (trace w3) = requests (trace w) @ (BASE_URL @ h3) # rs"
    using crawl_loop_first_request by blast
qed

theorem fetched_url_is_base_followed_by_link_witness:
  "parse_author_bio demo_site ''/author/A'' w0 =
     (Inr \<lparr>name = ''A.'', bio = ''bio of A''\<rparr>,
      w0\<lparr>trace := [Info (FetchingBioFrom (BASE_URL @ ''/author/A'')),
                    Request (BASE_URL @ ''/author/A'')]\<rparr>) \<and>
   requests (trace (w0\<lparr>trace := [Info (FetchingBioFrom (BASE_URL @ ''/author/A'')),
                    Request (BASE_URL @ ''/author/A'')]\<rparr>)) =
     requests (trace w0) @ [BASE_URL @ ''/author/A''] \<and>
   parse_single_quote (quote_block ''q1'' ''A'' ''/author/A'' [''x'', ''y'']) =
     Inr \<lparr>text = ''q1'', author = ''A'', tags = [''x'', ''y'']\<rparr> \<and>
   select_one (ByName ''a'') (quote_block ''q1'' ''A'' ''/author/A'' [''x'', ''y'']) =
     Some (Tag ''a'' [] [(''href'', ''/author/A'')] [NavigableString ''(about)'']) \<and>
   getitem (Tag ''a'' [] [(''href'', ''/author/A'')] [NavigableString ''(about)'']) ''href'' =
     Some ''/author/A'' \<and>
   quotes_loop demo_site [quote_block ''q1'' ''A'' ''/author/A'' [''x'', ''y'']] [] [] w0 =
     (Inr ([\<lparr>text = ''q1'', author = ''A'', tags = [''x'', ''y'']\<rparr>],
           [(''A'', \<lparr>name = ''A.'', bio = ''bio of A''\<rparr>)]),
      w0\<lparr>trace := [Info (FetchingBioNew ''A''),
                    Info (FetchingBioFrom (BASE_URL @ ''/author/A'')),
                    Request (BASE_URL @ ''/author/A'')]\<rparr>) \<and>
   (\<exists>rs. requests (trace (w0\<lparr>trace := [Info (FetchingBioNew ''A''),
                    Info (FetchingBioFrom (BASE_URL @ ''/author/A'')),
                    Request (BASE_URL @ ''/author/A'')]\<rparr>)) =
      requests (trace w0) @ (BASE_URL @ ''/author/A'') # rs) \<and>
   getitem (Tag ''a'' [] [(''href'', ''/page/2/'')] [NavigableString ''Next'']) ''href'' =
     Some ''/page/2/'' \<and>
   (\<exists>r3 w3. crawl_loop demo_site
      (Some (Tag ''a'' [] [(''href'', ''/page/2/'')] [NavigableString ''Next''])) [] [] w0 =
        Some (r3, w3) \<and>
      (\<exists>rs. requests (trace w3) = requests (trace w0) @ (BASE_URL @ ''/page/2/'') # rs))"
proof -
  let ?b = "quote_block ''q1'' ''A'' ''/author/A'' [''x'', ''y'']"
  let ?l = "Tag ''a'' [] [(''href'', ''/author/A'')] [NavigableString ''(about)'']"
  let ?btn = "Tag ''a'' [] [(''href'', ''/page/2/'')] [NavigableString ''Next'']"
  have p: "parse_single_quote ?b = Inr \<lparr>text = ''q1'', author = ''A'', tags = [''x'', ''y'']\<rparr>"
    by (simp add: quote_block_def parse_single_quote_def select_one_def select_def
          text_of_def get_text_strip_def strip_def isspace_def)
  have s: "select_one (ByName ''a'') ?b = Some ?l"
    by (simp add: quote_block_def select_one_def select_def)
  have g: "getitem ?l ''href'' = Some ''/author/A''" by (simp add: getitem_def)
  have n: "author \<lparr>text = ''q1'', author = ''A'', tags = [''x'', ''y'']\<rparr> \<notin> set (map fst ([] :: registry))"
    by simp
  have g3: "getitem ?btn ''href'' = Some ''/page/2/''" by (simp add: getitem_def)
  note t = fetched_url_is_base_followed_by_link[where web = demo_site and w = w0
      and rest = "[]" and ql = "[]" and reg = "[]" and aq = "[]" and ?reg3.0 = "[]"]
  from t[THEN conjunct1, THEN mp, OF demo_bio_A]
  have 1: "requests (trace (w0\<lparr>trace := [Info (FetchingBioFrom (BASE_URL @ ''/author/A'')),
                    Request (BASE_URL @ ''/author/A'')]\<rparr>)) =
     requests (trace w0) @ [BASE_URL @ ''/author/A'']" .
  from t[THEN conjunct2, THEN conjunct1, THEN mp, OF conjI[OF p conjI[OF s conjI[OF g conjI[OF n demo_first_block]]]]]
  have 2: "\<exists>rs. requests (trace (w0\<lparr>trace := [Info (FetchingBioNew ''A''),
                    Info (FetchingBioFrom (BASE_URL @ ''/author/A'')),
                    Request (BASE_URL @ ''/author/A'')]\<rparr>)) =
      requests (trace w0) @ (BASE_URL @ ''/author/A'') # rs" .
  from t[THEN conjunct2, THEN conjunct2, THEN mp, OF conjI[OF g3 demo_second_page]] demo_second_page
  have 3: "\<exists>r3 w3. crawl_loop demo_site (Some ?btn) [] [] w0 = Some (r3, w3) \<and>
      (\<exists>rs. requests (trace w3) = requests (trace w0) @ (BASE_URL @ ''/page/2/'') # rs)"
    by blast
  from demo_bio_A 1 p s g demo_first_block 2 g3 3 show ?thesis by (intro conjI)
qed

text \<open>
  The claim as stated fails on links that start with a slash, as those of the two-page
  site do: resolved against the base URL, \<^verbatim>\<open>/page/2/\<close> is
  \<^verbatim>\<open>https://quotes.toscrape.com/page/2/\<close>, while the crawl requests
  \<^verbatim>\<open>https://quotes.toscrape.com//page/2/\<close>; likewise for the biography links.
\<close>

theorem link_not_resolved_counterexample:
  "select_one (ChildOf ''li'' ''next'' ''a'') (BeautifulSoup page1) =
     Some (Tag ''a'' [] [(''href'', ''/page/2/'')] [NavigableString ''Next'']) \<and>
   resolve_reference BASE_URL ''/page/2/'' = ''https://quotes.toscrape.com/page/2/'' \<and>
   resolve_reference BASE_URL ''/author/A'' = ''https://quotes.toscrape.com/author/A'' \<and>
   get_all_quotes_and_authors demo_site w0 =
     Some (Inr (demo_quotes, demo_registry), w0\<lparr>trace := demo_trace\<rparr>) \<and>
   requests demo_trace =
     [''https://quotes.toscrape.com/'', ''https://quotes.toscrape.com//author/A'',
      ''https://quotes.toscrape.com//author/B'', ''https://quotes.toscrape.com//page/2/'',
      ''https://quotes.toscrape.com//author/C'']"
  by (simp add: demo_run)
     (simp add: demo_trace_def page1_def BeautifulSoup_def select_one_def select_def
        quote_block_def next_nav_def resolve_reference_def has_scheme_def url_scheme_def
        url_authority_def BASE_URL_def)

subsection \<open>C6: what the quote extractor extracts\<close>

lemma get_text_strip_single: "strings t = [s] \<Longrightarrow> get_text_strip t = strip s"
  by (simp add: get_text_strip_def)

text \<open>
  Claim C6, as amended. For every quote block with a text element and an author element,
  \<^verbatim>\<open>parse_single_quote\<close> returns a quote whose text and author are the texts of these
  elements as they stand (nothing is trimmed), and whose tag sequence has one entry per
  tag element of the block, in document order. An entry is what \<^verbatim>\<open>get_text(strip=True)\<close>
  gives for the tag element: each of its text pieces trimmed on its own, the empty ones
  dropped, the rest joined. For a tag element that holds a single text piece this is
  that text trimmed of surrounding white space.
\<close>

theorem parse_single_quote_fields:
  assumes "select_one (ByClass ''text'') b = Some t"
    and "select_one (ByClass ''author'') b = Some a"
  shows "\<exists>q. parse_single_quote b = Inr q \<and> text q = text_of t \<and> author q = text_of a \<and>
           length (tags q) = length (select (ByClass ''tag'') b) \<and>
           (\<forall>i < length (tags q).
              tags q ! i = get_text_strip (select (ByClass ''tag'') b ! i) \<and>
              (\<forall>s. strings (select (ByClass ''tag'') b ! i) = [s] \<longrightarrow> tags q ! i = strip s))"
  using assms by (simp add: parse_single_quote_def get_text_strip_single)

theorem parse_single_quote_fields_witness:
  "select_one (ByClass ''text'') spaced_block = Some (Tag ''span'' [''text''] [] [NavigableString '' t '']) \<and>
   select_one (ByClass ''author'') spaced_block = Some (Tag ''small'' [''author''] [] [NavigableString '' A '']) \<and>
   parse_single_quote spaced_block = Inr \<lparr>text = '' t '', author = '' A '', tags = [''x'', ''y'']\<rparr>"
  using parse_single_quote_fields[of spaced_block
      "Tag ''span'' [''text''] [] [NavigableString '' t '']"
      "Tag ''small'' [''author''] [] [NavigableString '' A '']"]
  by (simp add: spaced_block_def quote_block_def select_one_def select_def parse_single_quote_def
        text_of_def get_text_strip_def strip_def isspace_def)

text \<open>
  The claim as stated fails on a tag element with markup inside: for
  \<^verbatim>\<open><a class="tag">deep <b> thoughts</b></a>\<close> the extracted tag is \<^verbatim>\<open>deepthoughts\<close>,
  while the tag's text trimmed of surrounding white space is \<^verbatim>\<open>deep  thoughts\<close>.
\<close>

theorem tags_not_trimmed_text_counterexample:
  "parse_single_quote nested_tag_block = Inr \<lparr>text = ''t'', author = ''A'', tags = [''deepthoughts'']\<rparr>
   \<and> strip (text_of (select (ByClass ''tag'') nested_tag_block ! 0)) = ''deep  thoughts''"
  by (simp add: nested_tag_block_def select_one_def select_def parse_single_quote_def
        text_of_def get_text_strip_def strip_def isspace_def)

subsection \<open>C7: the files the serializer writes\<close>

text \<open>
  Claim C7. For every list of quotes and every destination, \<^verbatim>\<open>save_quotes_to_csv\<close>
  succeeds when no file operation fails, and whenever it succeeds the destination holds,
  whatever it held before, the header row with the fields text, author, tags (the line
  \<^verbatim>\<open>text,author,tags\<close>) followed by one row per quote in the order of the list, whose
  third field is \<^verbatim>\<open>str()\<close> of the tag list, the list literal. \<^verbatim>\<open>save_authors_to_csv\<close>
  likewise writes the header row name, bio followed by one row per entry of the
  registry, with the name and the biography of the entry's author.
\<close>

theorem save_to_csv_rows:
  "(faults w = [] \<longrightarrow>
      (\<exists>w'. save_quotes_to_csv quotes p w = (Inr (), w')) \<and>
      (\<exists>w'. save_authors_to_csv authors p w = (Inr (), w')))
   \<and> (\<forall>w'. save_quotes_to_csv quotes p w = (Inr (), w') \<longrightarrow>
         read_file w' p = Some (csv_row [''text'', ''author'', ''tags''] @
           concat (map (\<lambda>q. csv_row [text q, author q, str_list (tags q)]) quotes)))
   \<and> (\<forall>w'. save_authors_to_csv authors p w = (Inr (), w') \<longrightarrow>
         read_file w' p = Some (csv_row [''name'', ''bio''] @
           concat (map (\<lambda>(k, a). csv_row [name a, bio a]) authors)))
   \<and> csv_row [''text'', ''author'', ''tags''] = ''text,author,tags'' @ [CHR 0x0D, CHR 0x0A]
   \<and> csv_row [''name'', ''bio''] = ''name,bio'' @ [CHR 0x0D, CHR 0x0A]"
proof (intro conjI allI impI)
  assume "faults w = []"
  then show "\<exists>w'. save_quotes_to_csv quotes p w = (Inr (), w')"
    using save_quotes_to_csv_no_fault by blast
next
  assume "faults w = []"
  then show "\<exists>w'. save_authors_to_csv authors p w = (Inr (), w')"
    using save_authors_to_csv_no_fault by blast
next
  fix w'
  assume "save_quotes_to_csv quotes p w = (Inr (), w')"
  then show "read_file w' p = Some (csv_row [''text'', ''author'', ''tags''] @
           concat (map (\<lambda>q. csv_row [text q, author q, str_list (tags q)]) quotes))"
    by (cases rule: save_quotes_to_csv_cases)
       (simp_all add: csv_text_def quote_row_def comp_def read_file_def)
next
  fix w'
  assume "save_authors_to_csv authors p w = (Inr (), w')"
  then show "read_file w' p = Some (csv_row [''name'', ''bio''] @
           concat (map (\<lambda>(k, a). csv_row [name a, bio a]) authors))"
    by (cases rule: save_authors_to_csv_cases)
       (simp_all add: csv_text_def author_row_def comp_def split_def read_file_def)
next
  show "csv_row [''text'', ''author'', ''tags''] = ''text,author,tags'' @ [CHR 0x0D, CHR 0x0A]"
    by (simp add: csv_row_def csv_field_def csv_special_def)
next
  show "csv_row [''name'', ''bio''] = ''name,bio'' @ [CHR 0x0D, CHR 0x0A]"
    by (simp add: csv_row_def csv_field_def csv_special_def)
qed

theorem save_to_csv_rows_witness:
  "faults w_old = [] \<and> read_file w_old ''quotes.csv'' = Some ''stale'' \<and>
   fst (save_quotes_to_csv [\<lparr>text = ''q1'', author = ''A'', tags = [''x'', ''y'']\<rparr>,
                            \<lparr>text = ''q2'', author = ''B'', tags = []\<rparr>] ''quotes.csv'' w_old) = Inr () \<and>
   read_file (snd (save_quotes_to_csv [\<lparr>text = ''q1'', author = ''A'', tags = [''x'', ''y'']\<rparr>,
                            \<lparr>text = ''q2'', author = ''B'', tags = []\<rparr>] ''quotes.csv'' w_old)) ''quotes.csv''
     = Some (''text,author,tags'' @ [CHR 0x0D, CHR 0x0A] @
             ''q1,A,'' @ [CHR 0x22] @ ''['' @ [CHR 0x27] @ ''x'' @ [CHR 0x27] @ '', '' @ [CHR 0x27] @ ''y''
                @ [CHR 0x27] @ '']'' @ [CHR 0x22, CHR 0x0D, CHR 0x0A] @
             ''q2,B,[]'' @ [CHR 0x0D, CHR 0x0A]) \<and>
   fst (save_authors_to_csv [(''A'', \<lparr>name = ''A.'', bio = ''bio, of A''\<rparr>)] ''quotes.csv'' w_old) = Inr () \<and>
   read_file (snd (save_authors_to_csv [(''A'', \<lparr>name = ''A.'', bio = ''bio, of A''\<rparr>)] ''quotes.csv'' w_old)) ''quotes.csv''
     = Some (''name,bio'' @ [CHR 0x0D, CHR 0x0A] @ ''A.,'' @ [CHR 0x22] @ ''bio, of A'' @ [CHR 0x22, CHR 0x0D, CHR 0x0A])"
  using save_to_csv_rows[of w_old "[\<lparr>text = ''q1'', author = ''A'', tags = [''x'', ''y'']\<rparr>,
                            \<lparr>text = ''q2'', author = ''B'', tags = []\<rparr>]" "''quotes.csv''"
                            "[(''A'', \<lparr>name = ''A.'', bio = ''bio, of A''\<rparr>)]"]
  by (simp add: w_old_def read_file_def plain_path_def save_quotes_to_csv_def save_authors_to_csv_def open_w_def next_fault_def
        writerow_def file_write_def logging_info_def quote_row_def author_row_def
        csv_row_def csv_field_def csv_special_def str_list_def repr_def repr_char_def isprintable_def Let_def)

subsection \<open>C8: the first error ends the run\<close>

text \<open>
  Claim C8, as amended. No error is caught anywhere. An error of a call is the result
  of its caller, with nothing done after it: of the request in the author extractor; of
  the quote extractor and of the author extractor in the walker, at the first block and
  at any later block; of the walker, of the request and of a later iteration in the
  crawl loop; of the request, of the walker and of the loop in the crawl; of a file
  operation in the serializer, for the open, the header row and every row; of the
  crawl and of each of the two writes in the program. So the program ends with an
  error and has written no file when the crawl meets a malformed quote block, a first
  block of an author whose biography page cannot be fetched or lacks its title or
  description, or a next-page link that cannot be followed; and when the crawl has
  succeeded, the first file operation that fails ends the program, with no file
  operation after it. An error while the quotes file is written leaves every other
  file untouched; an error while the authors file is written leaves the quotes file,
  written before, with all its rows, provided its path does not name the same file as
  the path of the authors file. The program succeeds only when the crawl and both
  writes succeed.
\<close>

theorem first_error_aborts_run:
  "(\<forall>web h w e w'.
      requests_get web (BASE_URL @ h) (logging_info (FetchingBioFrom (BASE_URL @ h)) w) = (Inl e, w') \<longrightarrow>
      parse_author_bio web h w = (Inl e, w'))
   \<and> (\<forall>web b rest ql reg w e.
      parse_single_quote b = Inl e \<longrightarrow> quotes_loop web (b # rest) ql reg w = (Inl e, w))
   \<and> (\<forall>web b rest ql reg w q l h e w'.
      parse_single_quote b = Inr q \<and> select_one (ByName ''a'') b = Some l \<and>
      getitem l ''href'' = Some h \<and> author q \<notin> set (map fst reg) \<and>
      parse_author_bio web h (logging_info (FetchingBioNew (author q)) w) = (Inl e, w') \<longrightarrow>
      quotes_loop web (b # rest) ql reg w = (Inl e, w'))
   \<and> (\<forall>web bs1 bs2 ql reg w ql1 reg1 w1 e w2.
      quotes_loop web bs1 ql reg w = (Inr (ql1, reg1), w1) \<and>
      quotes_loop web bs2 ql1 reg1 w1 = (Inl e, w2) \<longrightarrow>
      quotes_loop web (bs1 @ bs2) ql reg w = (Inl e, w2))
   \<and> (\<forall>web soup reg w e w'.
      quotes_loop web (select (ByClass ''quote'') soup) [] reg w = (Inl e, w') \<longrightarrow>
      get_single_page_quotes web soup reg w = (Inl e, w'))
   \<and> (\<forall>web btn h aq reg w e w'.
      getitem btn ''href'' = Some h \<and>
      requests_get web (BASE_URL @ h) (logging_info (FetchingPage (BASE_URL @ h)) w) = (Inl e, w') \<longrightarrow>
      crawl_loop web (Some btn) aq reg w = Some (Inl e, w'))
   \<and> (\<forall>web btn h aq reg w resp w1 e w'.
      getitem btn ''href'' = Some h \<and>
      requests_get web (BASE_URL @ h) (logging_info (FetchingPage (BASE_URL @ h)) w) = (Inr resp, w1) \<and>
      get_single_page_quotes web (BeautifulSoup (content resp)) reg w1 = (Inl e, w') \<longrightarrow>
      crawl_loop web (Some btn) aq reg w = Some (Inl e, w'))
   \<and> (\<forall>web btn h aq reg w resp w1 qs reg1 w2 e w'.
      getitem btn ''href'' = Some h \<and>
      requests_get web (BASE_URL @ h) (logging_info (FetchingPage (BASE_URL @ h)) w) = (Inr resp, w1) \<and>
      get_single_page_quotes web (BeautifulSoup (content resp)) reg w1 = (Inr (qs, reg1), w2) \<and>
      crawl_loop web (select_one (ChildOf ''li'' ''next'' ''a'') (BeautifulSoup (content resp)))
        (aq @ qs) reg1 w2 = Some (Inl e, w') \<longrightarrow>
      crawl_loop web (Some btn) aq reg w = Some (Inl e, w'))
   \<and> (\<forall>web w e w'.
      requests_get web BASE_URL (logging_info Starting w) = (Inl e, w') \<longrightarrow>
      get_all_quotes_and_authors web w = Some (Inl e, w'))
   \<and> (\<forall>web w resp w1 e w'.
      requests_get web BASE_URL (logging_info Starting w) = (Inr resp, w1) \<and>
      get_single_page_quotes web (BeautifulSoup (content resp)) [] w1 = (Inl e, w') \<longrightarrow>
      get_all_quotes_and_authors web w = Some (Inl e, w'))
   \<and> (\<forall>web w resp w1 qs reg1 w2 e w'.
      requests_get web BASE_URL (logging_info Starting w) = (Inr resp, w1) \<and>
      get_single_page_quotes web (BeautifulSoup (content resp)) [] w1 = (Inr (qs, reg1), w2) \<and>
      crawl_loop web (select_one (ChildOf ''li'' ''next'' ''a'') (BeautifulSoup (content resp)))
        qs reg1 w2 = Some (Inl e, w') \<longrightarrow>
      get_all_quotes_and_authors web w = Some (Inl e, w'))
   \<and> (\<forall>w fs p f s. faults w = True # fs \<longrightarrow>
      open_w p w = (Inl OSError, w\<lparr>faults := fs\<rparr>) \<and>
      file_write f s w = (Inl OSError, w\<lparr>faults := fs\<rparr>) \<and> is_IOError OSError)
   \<and> (\<forall>f row rows w e w'.
      writerow f row w = (Inl e, w') \<longrightarrow> writerows f (row # rows) w = (Inl e, w'))
   \<and> (\<forall>f row rows w w1 e w'.
      writerow f row w = (Inr (), w1) \<and> writerows f rows w1 = (Inl e, w') \<longrightarrow>
      writerows f (row # rows) w = (Inl e, w'))
   \<and> (\<forall>qs p w e w'.
      open_w p (logging_info (SavingQuotes p) w) = (Inl e, w') \<longrightarrow>
      save_quotes_to_csv qs p w = (Inl e, w'))
   \<and> (\<forall>qs p w f w1 e w'.
      open_w p (logging_info (SavingQuotes p) w) = (Inr f, w1) \<and>
      writerow f [Str ''text'', Str ''author'', Str ''tags''] w1 = (Inl e, w') \<longrightarrow>
      save_quotes_to_csv qs p w = (Inl e, w'))
   \<and> (\<forall>qs p w f w1 w2 e w'.
      open_w p (logging_info (SavingQuotes p) w) = (Inr f, w1) \<and>
      writerow f [Str ''text'', Str ''author'', Str ''tags''] w1 = (Inr (), w2) \<and>
      writerows f (map quote_row qs) w2 = (Inl e, w') \<longrightarrow>
      save_quotes_to_csv qs p w = (Inl e, w'))
   \<and> (\<forall>reg p w e w'.
      open_w p (logging_info (SavingAuthors p) w) = (Inl e, w') \<longrightarrow>
      save_authors_to_csv reg p w = (Inl e, w'))
   \<and> (\<forall>reg p w f w1 e w'.
      open_w p (logging_info (SavingAuthors p) w) = (Inr f, w1) \<and>
      writerow f [Str ''name'', Str ''bio''] w1 = (Inl e, w') \<longrightarrow>
      save_authors_to_csv reg p w = (Inl e, w'))
   \<and> (\<forall>reg p w f w1 w2 e w'.
      open_w p (logging_info (SavingAuthors p) w) = (Inr f, w1) \<and>
      writerow f [Str ''name'', Str ''bio''] w1 = (Inr (), w2) \<and>
      writerows f (map (author_row \<circ> snd) reg) w2 = (Inl e, w') \<longrightarrow>
      save_authors_to_csv reg p w = (Inl e, w'))
   \<and> (\<forall>web p w e w'.
      get_all_quotes_and_authors web w = Some (Inl e, w') \<longrightarrow>
      main web p w = Some (Inl e, w') \<and> files w' = files w)
   \<and> (\<forall>web p w qs reg w1 e w'.
      get_all_quotes_and_authors web w = Some (Inr (qs, reg), w1) \<and>
      save_quotes_to_csv qs p w1 = (Inl e, w') \<longrightarrow>
      main web p w = Some (Inl e, w') \<and> is_IOError e \<and>
      (\<forall>p'. file_of w p' \<noteq> file_of w p \<longrightarrow> read_file w' p' = read_file w p'))
   \<and> (\<forall>web p w qs reg w1 w2 e w'.
      get_all_quotes_and_authors web w = Some (Inr (qs, reg), w1) \<and>
      save_quotes_to_csv qs p w1 = (Inr (), w2) \<and>
      save_authors_to_csv reg OUTPUT_AUTHORS_PATH w2 = (Inl e, w') \<longrightarrow>
      main web p w = Some (Inl e, w') \<and> is_IOError e \<and>
      (file_of w p \<noteq> file_of w OUTPUT_AUTHORS_PATH \<longrightarrow>
         read_file w' p = Some (csv_row [''text'', ''author'', ''tags''] @
           concat (map (\<lambda>q. csv_row [text q, author q, str_list (tags q)]) qs))))
   \<and> (\<forall>web p w resp0 pages.
      web BASE_URL = Reply resp0 \<and>
      chain_prefix web (select_one (ChildOf ''li'' ''next'' ''a'') (BeautifulSoup (content resp0))) pages \<and>
      ((\<exists>b\<in>set (quote_blocks (BeautifulSoup (content resp0) # map snd pages)). malformed_quote b) \<or>
       (\<exists>k b l h.
          find (names_author k) (quote_blocks (BeautifulSoup (content resp0) # map snd pages)) = Some b \<and>
          select_one (ByName ''a'') b = Some l \<and> getitem l ''href'' = Some h \<and>
          (\<forall>resp. web (BASE_URL @ h) = Reply resp \<longrightarrow>
             select_one (ByClass ''author-title'') (BeautifulSoup (content resp)) = None \<or>
             select_one (ByClass ''author-description'') (BeautifulSoup (content resp)) = None)) \<or>
       (\<exists>btn.
          next_after (select_one (ChildOf ''li'' ''next'' ''a'') (BeautifulSoup (content resp0))) pages
            = Some btn \<and>
          (\<forall>h. getitem btn ''href'' = Some h \<longrightarrow> web (BASE_URL @ h) = NoResponse))) \<longrightarrow>
      (\<exists>e w'. main web p w = Some (Inl e, w') \<and> files w' = files w \<and>
              (is_NetworkError e \<or> is_MalformedPageError e)))
   \<and> (\<forall>web p w qs reg w1 k fs.
      get_all_quotes_and_authors web w = Some (Inr (qs, reg), w1) \<and>
      faults w = replicate k False @ True # fs \<and> k < length qs + length reg + 4 \<longrightarrow>
      (\<exists>w'. main web p w = Some (Inl OSError, w') \<and> faults w' = fs))
   \<and> (\<forall>web p w w'. main web p w = Some (Inr (), w') \<longrightarrow>
      (\<exists>qs reg w1 w2 w3. get_all_quotes_and_authors web w = Some (Inr (qs, reg), w1) \<and>
         save_quotes_to_csv qs p w1 = (Inr (), w2) \<and>
         save_authors_to_csv reg OUTPUT_AUTHORS_PATH w2 = (Inr (), w3)))"
proof (intro conjI allI impI)
  fix web :: site and h w e w'
  assume "requests_get web (BASE_URL @ h) (logging_info (FetchingBioFrom (BASE_URL @ h)) w) = (Inl e, w')"
  then show "parse_author_bio web h w = (Inl e, w')" by (simp add: parse_author_bio_def)
next
  fix web :: site and b rest ql and reg :: registry and w :: world and e
  assume "parse_single_quote b = Inl e"
  then show "quotes_loop web (b # rest) ql reg w = (Inl e, w)" by simp
next
  fix web :: site and b rest ql and reg :: registry and w q l h e w'
  assume "parse_single_quote b = Inr q \<and> select_one (ByName ''a'') b = Some l \<and>
      getitem l ''href'' = Some h \<and> author q \<notin> set (map fst reg) \<and>
      parse_author_bio web h (logging_info (FetchingBioNew (author q)) w) = (Inl e, w')"
  then show "quotes_loop web (b # rest) ql reg w = (Inl e, w')" by simp
next
  fix web :: site and bs1 bs2 ql and reg :: registry and w ql1 reg1 w1 e w2
  assume "quotes_loop web bs1 ql reg w = (Inr (ql1, reg1), w1) \<and>
      quotes_loop web bs2 ql1 reg1 w1 = (Inl e, w2)"
  then show "quotes_loop web (bs1 @ bs2) ql reg w = (Inl e, w2)"
    by (simp add: quotes_loop_append)
next
  fix web :: site and soup and reg :: registry and w e w'
  assume "quotes_loop web (select (ByClass ''quote'') soup) [] reg w = (Inl e, w')"
  then show "get_single_page_quotes web soup reg w = (Inl e, w')"
    by (simp add: get_single_page_quotes_def)
next
  fix web :: site and btn h aq and reg :: registry and w e w'
  assume "getitem btn ''href'' = Some h \<and>
      requests_get web (BASE_URL @ h) (logging_info (FetchingPage (BASE_URL @ h)) w) = (Inl e, w')"
  then show "crawl_loop web (Some btn) aq reg w = Some (Inl e, w')"
    by (subst crawl_loop.simps) simp
next
  fix web :: site and btn h aq and reg :: registry and w resp w1 e w'
  assume "getitem btn ''href'' = Some h \<and>
      requests_get web (BASE_URL @ h) (logging_info (FetchingPage (BASE_URL @ h)) w) = (Inr resp, w1) \<and>
      get_single_page_quotes web (BeautifulSoup (content resp)) reg w1 = (Inl e, w')"
  then show "crawl_loop web (Some btn) aq reg w = Some (Inl e, w')"
    by (subst crawl_loop.simps) simp
next
  fix web :: site and btn h aq and reg :: registry and w resp w1 qs reg1 w2 e w'
  assume "getitem btn ''href'' = Some h \<and>
      requests_get web (BASE_URL @ h) (logging_info (FetchingPage (BASE_URL @ h)) w) = (Inr resp, w1) \<and>
      get_single_page_quotes web (BeautifulSoup (content resp)) reg w1 = (Inr (qs, reg1), w2) \<and>
      crawl_loop web (select_one (ChildOf ''li'' ''next'' ''a'') (BeautifulSoup (content resp)))
        (aq @ qs) reg1 w2 = Some (Inl e, w')"
  then show "crawl_loop web (Some btn) aq reg w = Some (Inl e, w')"
    by (subst crawl_loop.simps) simp
next
  fix web :: site and w e w'
  assume "requests_get web BASE_URL (logging_info Starting w) = (Inl e, w')"
  then show "get_all_quotes_and_authors web w = Some (Inl e, w')"
    by (simp add: get_all_quotes_and_authors_def)
next
  fix web :: site and w resp w1 e w'
  assume "requests_get web BASE_URL (logging_info Starting w) = (Inr resp, w1) \<and>
      get_single_page_quotes web (BeautifulSoup (content resp)) [] w1 = (Inl e, w')"
  then show "get_all_quotes_and_authors web w = Some (Inl e, w')"
    by (simp add: get_all_quotes_and_authors_def)
next
  fix web :: site and w resp w1 qs reg1 w2 e w'
  assume "requests_get web BASE_URL (logging_info Starting w) = (Inr resp, w1) \<and>
      get_single_page_quotes web (BeautifulSoup (content resp)) [] w1 = (Inr (qs, reg1), w2) \<and>
      crawl_loop web (select_one (ChildOf ''li'' ''next'' ''a'') (BeautifulSoup (content resp)))
        qs reg1 w2 = Some (Inl e, w')"
  then show "get_all_quotes_and_authors web w = Some (Inl e, w')"
    by (simp add: get_all_quotes_and_authors_def)
next
  fix w :: world and fs and p :: path and f :: file_id and s :: string
  assume "faults w = True # fs"
  then show "open_w p w = (Inl OSError, w\<lparr>faults := fs\<rparr>)"
    by (simp add: open_w_def next_fault_def)
next
  fix w :: world and fs and p :: path and f :: file_id and s :: string
  assume "faults w = True # fs"
  then show "file_write f s w = (Inl OSError, w\<lparr>faults := fs\<rparr>)"
    by (simp add: file_write_def next_fault_def)
next
  show "is_IOError OSError" by simp
next
  fix f row rows w e w'
  assume "writerow f row w = (Inl e, w')"
  then show "writerows f (row # rows) w = (Inl e, w')" by simp
next
  fix f row rows w w1 e w'
  assume "writerow f row w = (Inr (), w1) \<and> writerows f rows w1 = (Inl e, w')"
  then show "writerows f (row # rows) w = (Inl e, w')" by simp
next
  fix qs p w e w'
  assume "open_w p (logging_info (SavingQuotes p) w) = (Inl e, w')"
  then show "save_quotes_to_csv qs p w = (Inl e, w')" by (simp add: save_quotes_to_csv_def)
next
  fix qs p w f w1 e w'
  assume "open_w p (logging_info (SavingQuotes p) w) = (Inr f, w1) \<and>
      writerow f [Str ''text'', Str ''author'', Str ''tags''] w1 = (Inl e, w')"
  then show "save_quotes_to_csv qs p w = (Inl e, w')" by (simp add: save_quotes_to_csv_def)
next
  fix qs p w f w1 w2 e w'
  assume "open_w p (logging_info (SavingQuotes p) w) = (Inr f, w1) \<and>
      writerow f [Str ''text'', Str ''author'', Str ''tags''] w1 = (Inr (), w2) \<and>
      writerows f (map quote_row qs) w2 = (Inl e, w')"
  then show "save_quotes_to_csv qs p w = (Inl e, w')" by (simp add: save_quotes_to_csv_def)
next
  fix reg :: registry and p w e w'
  assume "open_w p (logging_info (SavingAuthors p) w) = (Inl e, w')"
  then show "save_authors_to_csv reg p w = (Inl e, w')" by (simp add: save_authors_to_csv_def)
next
  fix reg :: registry and p w f w1 e w'
  assume "open_w p (logging_info (SavingAuthors p) w) = (Inr f, w1) \<and>
      writerow f [Str ''name'', Str ''bio''] w1 = (Inl e, w')"
  then show "save_authors_to_csv reg p w = (Inl e, w')" by (simp add: save_authors_to_csv_def)
next
  fix reg :: registry and p w f w1 w2 e w'
  assume "open_w p (logging_info (SavingAuthors p) w) = (Inr f, w1) \<and>
      writerow f [Str ''name'', Str ''bio''] w1 = (Inr (), w2) \<and>
      writerows f (map (author_row \<circ> snd) reg) w2 = (Inl e, w')"
  then show "save_authors_to_csv reg p w = (Inl e, w')" by (simp add: save_authors_to_csv_def)
next
  fix web :: site and p :: path and w e w'
  assume a: "get_all_quotes_and_authors web w = Some (Inl e, w')"
  then show "main web p w = Some (Inl e, w')" by (simp add: main_def)
  from get_all_frame[OF a] show "files w' = files w" by simp
next
  fix web :: site and p :: path and w qs reg w1 e w'
  assume a: "get_all_quotes_and_authors web w = Some (Inr (qs, reg), w1) \<and>
      save_quotes_to_csv qs p w1 = (Inl e, w')"
  then show "main web p w = Some (Inl e, w')" by (simp add: main_def)
  from a save_quotes_to_csv_Inl[of qs p w1 e w'] show "is_IOError e" by simp
  fix p'
  assume "file_of w p' \<noteq> file_of w p"
  with a save_quotes_to_csv_Inl[of qs p w1 e w'] get_all_frame[of web w _ w1]
  show "read_file w' p' = read_file w p'" by (simp add: read_file_def)
next
  fix web :: site and p :: path and w qs reg w1 w2 e w'
  assume a: "get_all_quotes_and_authors web w = Some (Inr (qs, reg), w1) \<and>
      save_quotes_to_csv qs p w1 = (Inr (), w2) \<and>
      save_authors_to_csv reg OUTPUT_AUTHORS_PATH w2 = (Inl e, w')"
  then show "main web p w = Some (Inl e, w')" by (simp add: main_def)
  from a save_authors_to_csv_Inl[of reg OUTPUT_AUTHORS_PATH w2 e w']
  show "is_IOError e" by simp
  assume "file_of w p \<noteq> file_of w OUTPUT_AUTHORS_PATH"
  with a save_authors_to_csv_Inl[of reg OUTPUT_AUTHORS_PATH w2 e w']
    save_quotes_to_csv_Inr[of qs p w1 "()" w2] get_all_frame[of web w _ w1]
  show "read_file w' p = Some (csv_row [''text'', ''author'', ''tags''] @
           concat (map (\<lambda>q. csv_row [text q, author q, str_list (tags q)]) qs))"
    by (simp add: read_file_def)
next
  fix web :: site and p :: path and w resp0 pages
  assume a: "web BASE_URL = Reply resp0 \<and>
      chain_prefix web (select_one (ChildOf ''li'' ''next'' ''a'') (BeautifulSoup (content resp0))) pages \<and>
      ((\<exists>b\<in>set (quote_blocks (BeautifulSoup (content resp0) # map snd pages)). malformed_quote b) \<or>
       (\<exists>k b l h.
          find (names_author k) (quote_blocks (BeautifulSoup (content resp0) # map snd pages)) = Some b \<and>
          select_one (ByName ''a'') b = Some l \<and> getitem l ''href'' = Some h \<and>
          (\<forall>resp. web (BASE_URL @ h) = Reply resp \<longrightarrow>
             select_one (ByClass ''author-title'') (BeautifulSoup (content resp)) = None \<or>
             select_one (ByClass ''author-description'') (BeautifulSoup (content resp)) = None)) \<or>
       (\<exists>btn.
          next_after (select_one (ChildOf ''li'' ''next'' ''a'') (BeautifulSoup (content resp0))) pages
            = Some btn \<and>
          (\<forall>h. getitem btn ''href'' = Some h \<longrightarrow> web (BASE_URL @ h) = NoResponse)))"
  have "\<exists>e w'. get_all_quotes_and_authors web w = Some (Inl e, w')"
    by (rule crawl_meets_failure[of web resp0 pages]) (use a in blast)+
  then obtain e w' where g: "get_all_quotes_and_authors web w = Some (Inl e, w')" by blast
  from get_all_frame[OF g] get_all_error_kind[OF g] g
  show "\<exists>e w'. main web p w = Some (Inl e, w') \<and> files w' = files w \<and>
              (is_NetworkError e \<or> is_MalformedPageError e)"
    by (intro exI[of _ e] exI[of _ w']) (auto simp: main_def)
next
  fix web :: site and p :: path and w qs reg w1 k fs
  assume "get_all_quotes_and_authors web w = Some (Inr (qs, reg), w1) \<and>
      faults w = replicate k False @ True # fs \<and> k < length qs + length reg + 4"
  then show "\<exists>w'. main web p w = Some (Inl OSError, w') \<and> faults w' = fs"
    using main_faults[of web w qs reg w1 k fs p] by blast
next
  fix web :: site and p :: path and w w'
  assume "main web p w = Some (Inr (), w')"
  then show "\<exists>qs reg w1 w2 w3. get_all_quotes_and_authors web w = Some (Inr (qs, reg), w1) \<and>
         save_quotes_to_csv qs p w1 = (Inr (), w2) \<and>
         save_authors_to_csv reg OUTPUT_AUTHORS_PATH w2 = (Inr (), w3)"
    by (cases rule: main_cases) auto
qed

theorem first_error_aborts_run_witness:
  "parse_author_bio site_b_down ''/author/B'' w0 =
     (Inl RequestException,
      w0\<lparr>trace := [Info (FetchingBioFrom (BASE_URL @ ''/author/B'')),
                    Request (BASE_URL @ ''/author/B'')]\<rparr>) \<and>
   quotes_loop demo_site [Tag ''div'' [''quote''] [] [], quote_block ''q2'' ''B'' ''/author/B'' []]
     [] [] w0 = (Inl AttributeError, w0) \<and>
   quotes_loop site_b_down [quote_block ''q2'' ''B'' ''/author/B'' []] [] [] w0 =
     (Inl RequestException,
      w0\<lparr>trace := [Info (FetchingBioNew ''B''), Info (FetchingBioFrom (BASE_URL @ ''/author/B'')),
                    Request (BASE_URL @ ''/author/B'')]\<rparr>) \<and>
   quotes_loop site_b_down
     ([quote_block ''q1'' ''A'' ''/author/A'' [''x'', ''y'']] @ [quote_block ''q2'' ''B'' ''/author/B'' []])
     [] [] w0 =
     (Inl RequestException,
      w0\<lparr>trace := [Info (FetchingBioNew ''A''), Info (FetchingBioFrom (BASE_URL @ ''/author/A'')),
                    Request (BASE_URL @ ''/author/A''),
                    Info (FetchingBioNew ''B''), Info (FetchingBioFrom (BASE_URL @ ''/author/B'')),
                    Request (BASE_URL @ ''/author/B'')]\<rparr>) \<and>
   get_single_page_quotes site_b_down (BeautifulSoup page1) [] w0 =
     (Inl RequestException,
      w0\<lparr>trace := [Info (FetchingBioNew ''A''), Info (FetchingBioFrom (BASE_URL @ ''/author/A'')),
                    Request (BASE_URL @ ''/author/A''),
                    Info (FetchingBioNew ''B''), Info (FetchingBioFrom (BASE_URL @ ''/author/B'')),
                    Request (BASE_URL @ ''/author/B'')]\<rparr>) \<and>
   crawl_loop site_page2_down
     (Some (Tag ''a'' [] [(''href'', ''/page/2/'')] [NavigableString ''Next''])) [] [] w0 =
     Some (Inl RequestException,
           w0\<lparr>trace := [Info (FetchingPage (BASE_URL @ ''/page/2/'')),
                         Request (BASE_URL @ ''/page/2/'')]\<rparr>) \<and>
   crawl_loop site_linkless_page2
     (Some (Tag ''a'' [] [(''href'', ''/page/2/'')] [NavigableString ''Next''])) []
     [(''B'', \<lparr>name = ''B'', bio = ''bio of B''\<rparr>)] w0 =
     Some (Inl TypeError,
           w0\<lparr>trace := [Info (FetchingPage (BASE_URL @ ''/page/2/'')),
                         Request (BASE_URL @ ''/page/2/'')]\<rparr>) \<and>
   crawl_loop site_page2_down (Some (Tag ''a'' [] [(''href'', [])] [])) []
     [(''A'', \<lparr>name = ''A.'', bio = ''bio of A''\<rparr>), (''B'', \<lparr>name = ''B'', bio = ''bio of B''\<rparr>)] w0 =
     Some (Inl RequestException,
           w0\<lparr>trace := [Info (FetchingPage BASE_URL), Request BASE_URL,
                         Info (FetchingPage (BASE_URL @ ''/page/2/'')),
                         Request (BASE_URL @ ''/page/2/'')]\<rparr>) \<and>
   get_all_quotes_and_authors site_down w0 =
     Some (Inl RequestException, w0\<lparr>trace := [Info Starting, Request BASE_URL]\<rparr>) \<and>
   get_all_quotes_and_authors site_linkless w0 =
     Some (Inl TypeError, w0\<lparr>trace := [Info Starting, Request BASE_URL]\<rparr>) \<and>
   fst (the (get_all_quotes_and_authors site_page2_down w0)) = Inl RequestException \<and>
   faults w_open_fails = True # [] \<and>
   open_w ''quotes.csv'' w_open_fails = (Inl OSError, w_open_fails\<lparr>faults := []\<rparr>) \<and>
   file_write ''quotes.csv'' ''x'' w_open_fails = (Inl OSError, w_open_fails\<lparr>faults := []\<rparr>) \<and>
   writerows ''quotes.csv'' [[Str ''a''], [Str ''b'']] w_open_fails =
     (Inl OSError, w_open_fails\<lparr>faults := []\<rparr>) \<and>
   fst (writerows ''quotes.csv'' [[Str ''a''], [Str ''b'']] (w0\<lparr>faults := [False, True]\<rparr>)) =
     Inl OSError \<and>
   save_quotes_to_csv demo_quotes ''quotes.csv'' w_open_fails =
     (Inl OSError, w_open_fails\<lparr>trace := [Info (SavingQuotes ''quotes.csv'')], faults := []\<rparr>) \<and>
   fst (save_quotes_to_csv demo_quotes ''quotes.csv'' (w0\<lparr>faults := [False, True]\<rparr>)) = Inl OSError \<and>
   fst (save_quotes_to_csv demo_quotes ''quotes.csv'' (w0\<lparr>faults := [False, False, True]\<rparr>)) =
     Inl OSError \<and>
   save_authors_to_csv demo_registry ''authors.csv'' w_open_fails =
     (Inl OSError, w_open_fails\<lparr>trace := [Info (SavingAuthors ''authors.csv'')], faults := []\<rparr>) \<and>
   fst (save_authors_to_csv demo_registry ''authors.csv'' (w0\<lparr>faults := [False, True]\<rparr>)) =
     Inl OSError \<and>
   fst (save_authors_to_csv demo_registry ''authors.csv'' (w0\<lparr>faults := [False, False, True]\<rparr>)) =
     Inl OSError \<and>
   main site_b_down ''quotes.csv'' w0 =
     Some (Inl RequestException,
           w0\<lparr>trace := [Info Starting, Request BASE_URL, Info (FetchingBioNew ''A''),
                         Info (FetchingBioFrom (BASE_URL @ ''/author/A'')),
                         Request (BASE_URL @ ''/author/A''), Info (FetchingBioNew ''B''),
                         Info (FetchingBioFrom (BASE_URL @ ''/author/B'')),
                         Request (BASE_URL @ ''/author/B'')]\<rparr>) \<and>
   (\<exists>w2. main demo_site ''quotes.csv'' w_open_fails = Some (Inl OSError, w2) \<and>
      read_file w2 ''quotes.csv'' = None \<and> read_file w2 ''authors.csv'' = None) \<and>
   file_of w_eighth_fails ''quotes.csv'' \<noteq> file_of w_eighth_fails OUTPUT_AUTHORS_PATH \<and>
   (\<exists>w3. main demo_site ''quotes.csv'' w_eighth_fails = Some (Inl OSError, w3) \<and>
      read_file w3 ''quotes.csv'' =
        Some (csv_row [''text'', ''author'', ''tags''] @
              concat (map (\<lambda>q. csv_row [text q, author q, str_list (tags q)]) demo_quotes))) \<and>
   (\<exists>e w'. main site_b_down ''quotes.csv'' w0 = Some (Inl e, w') \<and> files w' = files w0 \<and>
      (is_NetworkError e \<or> is_MalformedPageError e)) \<and>
   faults w_eighth_fails = replicate 7 False @ True # [] \<and>
   (\<exists>w'. main demo_site ''quotes.csv'' w_eighth_fails = Some (Inl OSError, w') \<and> faults w' = []) \<and>
   (\<exists>w4. main demo_site ''quotes.csv'' w0 = Some (Inr (), w4)) \<and>
   (\<exists>qs reg w1 w2 w3. get_all_quotes_and_authors demo_site w0 = Some (Inr (qs, reg), w1) \<and>
      save_quotes_to_csv qs ''quotes.csv'' w1 = (Inr (), w2) \<and>
      save_authors_to_csv reg OUTPUT_AUTHORS_PATH w2 = (Inr (), w3))"
proof -
  note t = first_error_aborts_run
  note defs = site_b_down_def site_page2_down_def site_linkless_page2_def site_linkless_def
    site_down_def demo_site_def w0_def requests_get_def logging_info_def BASE_URL_def
    BeautifulSoup_def get_single_page_quotes_def select_def select_one_def quote_block_def
    next_nav_def bio_page_def parse_single_quote_def parse_author_bio_def getitem_def text_of_def
    get_text_strip_def strip_def isspace_def page1_def page2_def linkless_block_def
  note io = w0_def w_open_fails_def open_w_def file_write_def writerow_def next_fault_def
    logging_info_def save_quotes_to_csv_def save_authors_to_csv_def demo_quotes_def
    demo_registry_def
  let ?bA = "quote_block ''q1'' ''A'' ''/author/A'' [''x'', ''y'']"
  let ?bB = "quote_block ''q2'' ''B'' ''/author/B'' []"
  let ?qA = "\<lparr>text = ''q1'', author = ''A'', tags = [''x'', ''y'']\<rparr>"
  let ?qB = "\<lparr>text = ''q2'', author = ''B'', tags = []\<rparr>"
  let ?aA = "\<lparr>name = ''A.'', bio = ''bio of A''\<rparr>"
  let ?aB = "\<lparr>name = ''B'', bio = ''bio of B''\<rparr>"
  let ?lB = "Tag ''a'' [] [(''href'', ''/author/B'')] [NavigableString ''(about)'']"
  let ?btn = "Tag ''a'' [] [(''href'', ''/page/2/'')] [NavigableString ''Next'']"
  let ?uA = "BASE_URL @ ''/author/A''"
  let ?uB = "BASE_URL @ ''/author/B''"
  let ?u2 = "BASE_URL @ ''/page/2/''"
  let ?trA = "[Info (FetchingBioNew ''A''), Info (FetchingBioFrom ?uA), Request ?uA]"
  let ?trB = "[Info (FetchingBioNew ''B''), Info (FetchingBioFrom ?uB), Request ?uB]"
  have h1: "requests_get site_b_down (BASE_URL @ ''/author/B'')
      (logging_info (FetchingBioFrom (BASE_URL @ ''/author/B'')) w0) =
      (Inl RequestException, w0\<lparr>trace := [Info (FetchingBioFrom ?uB), Request ?uB]\<rparr>)"
    by (simp add: defs)
  note 1 = t[THEN conjunct1, rule_format, OF h1]
  have h2: "parse_single_quote (Tag ''div'' [''quote''] [] []) = Inl AttributeError"
    by (simp add: defs)
  note 2 = t[THEN conjunct2, THEN conjunct1, rule_format, OF h2,
      where web = demo_site and rest = "[?bB]" and ql = "[]" and reg = "[]" and w = w0]
  have h3a: "parse_single_quote ?bB = Inr ?qB" by (simp add: defs)
  have h3b: "select_one (ByName ''a'') ?bB = Some ?lB" by (simp add: defs)
  have h3c: "getitem ?lB ''href'' = Some ''/author/B''" by (simp add: defs)
  have h3d: "author ?qB \<notin> set (map fst ([] :: registry))" by simp
  have h3e: "parse_author_bio site_b_down ''/author/B'' (logging_info (FetchingBioNew (author ?qB)) w0) =
      (Inl RequestException, w0\<lparr>trace := ?trB\<rparr>)"
    by (simp add: defs)
  note 3 = t[THEN conjunct2, THEN conjunct2, THEN conjunct1, rule_format,
      OF conjI[OF h3a conjI[OF h3b conjI[OF h3c conjI[OF h3d h3e]]]],
      where rest = "[]" and ql = "[]"]
  have h4a: "quotes_loop site_b_down [?bA] [] [] w0 = (Inr ([?qA], [(''A'', ?aA)]), w0\<lparr>trace := ?trA\<rparr>)"
    by (simp add: defs)
  have h4b: "quotes_loop site_b_down [?bB] [?qA] [(''A'', ?aA)] (w0\<lparr>trace := ?trA\<rparr>) =
      (Inl RequestException, w0\<lparr>trace := ?trA @ ?trB\<rparr>)"
    by (simp add: defs)
  from t[THEN conjunct2, THEN conjunct2, THEN conjunct2, THEN conjunct1, rule_format,
      OF conjI[OF h4a h4b]]
  have 4: "quotes_loop site_b_down ([?bA] @ [?bB]) [] [] w0 =
      (Inl RequestException, w0\<lparr>trace := ?trA @ ?trB\<rparr>)" .
  have h5: "quotes_loop site_b_down (select (ByClass ''quote'') (BeautifulSoup page1)) [] [] w0 =
      (Inl RequestException, w0\<lparr>trace := ?trA @ ?trB\<rparr>)"
    by (simp add: defs)
  note 5 = t[THEN conjunct2, THEN conjunct2, THEN conjunct2, THEN conjunct2, THEN conjunct1,
      rule_format, OF h5]
  have h6a: "getitem ?btn ''href'' = Some ''/page/2/''" by (simp add: getitem_def)
  have h6b: "requests_get site_page2_down (BASE_URL @ ''/page/2/'')
      (logging_info (FetchingPage (BASE_URL @ ''/page/2/'')) w0) =
      (Inl RequestException, w0\<lparr>trace := [Info (FetchingPage ?u2), Request ?u2]\<rparr>)"
    by (simp add: defs)
  note 6 = t[THEN conjunct2, THEN conjunct2, THEN conjunct2, THEN conjunct2, THEN conjunct2,
      THEN conjunct1, rule_format, OF conjI[OF h6a h6b], where aq = "[]" and reg = "[]"]
  let ?r2 = "Response 200 [quote_block ''q3'' ''B'' ''/author/B'' [''z''], linkless_block]"
  have h7b: "requests_get site_linkless_page2 (BASE_URL @ ''/page/2/'')
      (logging_info (FetchingPage (BASE_URL @ ''/page/2/'')) w0) =
      (Inr ?r2, w0\<lparr>trace := [Info (FetchingPage ?u2), Request ?u2]\<rparr>)"
    by (simp add: defs)
  have h7c: "get_single_page_quotes site_linkless_page2 (BeautifulSoup (content ?r2))
      [(''B'', ?aB)] (w0\<lparr>trace := [Info (FetchingPage ?u2), Request ?u2]\<rparr>) =
      (Inl TypeError, w0\<lparr>trace := [Info (FetchingPage ?u2), Request ?u2]\<rparr>)"
    by (simp add: defs)
  note 7 = t[THEN conjunct2, THEN conjunct2, THEN conjunct2, THEN conjunct2, THEN conjunct2,
      THEN conjunct2, THEN conjunct1, rule_format, OF conjI[OF h6a conjI[OF h7b h7c]],
      where aq = "[]"]
  let ?btn0 = "Tag ''a'' [] [(''href'', [])] []"
  let ?w8 = "w0\<lparr>trace := [Info (FetchingPage BASE_URL), Request BASE_URL]\<rparr>"
  have h8a: "getitem ?btn0 ''href'' = Some []" by (simp add: getitem_def)
  have h8b: "requests_get site_page2_down (BASE_URL @ [])
      (logging_info (FetchingPage (BASE_URL @ [])) w0) = (Inr (Response 200 page1), ?w8)"
    by (simp add: site_page2_down_def demo_site_def w0_def requests_get_def logging_info_def
          BASE_URL_def)
  have h8c: "get_single_page_quotes site_page2_down (BeautifulSoup (content (Response 200 page1)))
      [(''A'', ?aA), (''B'', ?aB)] ?w8 = (Inr ([?qA, ?qB], [(''A'', ?aA), (''B'', ?aB)]), ?w8)"
    by (simp add: defs)
  have h8d: "crawl_loop site_page2_down
      (select_one (ChildOf ''li'' ''next'' ''a'') (BeautifulSoup (content (Response 200 page1))))
      ([] @ [?qA, ?qB]) [(''A'', ?aA), (''B'', ?aB)] ?w8 =
      Some (Inl RequestException,
            w0\<lparr>trace := [Info (FetchingPage BASE_URL), Request BASE_URL,
                          Info (FetchingPage ?u2), Request ?u2]\<rparr>)"
    by (simp add: defs crawl_loop.simps)
  from t[THEN conjunct2, THEN conjunct2, THEN conjunct2, THEN conjunct2, THEN conjunct2,
      THEN conjunct2, THEN conjunct2, THEN conjunct1, rule_format,
      OF conjI[OF h8a conjI[OF h8b conjI[OF h8c h8d]]]]
  have 8: "crawl_loop site_page2_down (Some ?btn0) [] [(''A'', ?aA), (''B'', ?aB)] w0 =
      Some (Inl RequestException,
            w0\<lparr>trace := [Info (FetchingPage BASE_URL), Request BASE_URL,
                          Info (FetchingPage ?u2), Request ?u2]\<rparr>)" .
  have h9: "requests_get site_down BASE_URL (logging_info Starting w0) =
      (Inl RequestException, w0\<lparr>trace := [Info Starting, Request BASE_URL]\<rparr>)"
    by (simp add: defs)
  note 9 = t[THEN conjunct2, THEN conjunct2, THEN conjunct2, THEN conjunct2, THEN conjunct2,
      THEN conjunct2, THEN conjunct2, THEN conjunct2, THEN conjunct1, rule_format, OF h9]
  let ?r10 = "Response 200 [linkless_block, next_nav ''/page/2/'']"
  have h10a: "requests_get site_linkless BASE_URL (logging_info Starting w0) =
      (Inr ?r10, w0\<lparr>trace := [Info Starting, Request BASE_URL]\<rparr>)"
    by (simp add: site_linkless_def w0_def requests_get_def logging_info_def)
  have h10b: "get_single_page_quotes site_linkless (BeautifulSoup (content ?r10)) []
      (w0\<lparr>trace := [Info Starting, Request BASE_URL]\<rparr>) =
      (Inl TypeError, w0\<lparr>trace := [Info Starting, Request BASE_URL]\<rparr>)"
    by (simp add: defs)
  note 10 = t[THEN conjunct2, THEN conjunct2, THEN conjunct2, THEN conjunct2, THEN conjunct2,
      THEN conjunct2, THEN conjunct2, THEN conjunct2, THEN conjunct2, THEN conjunct1,
      rule_format, OF conjI[OF h10a h10b]]
  let ?w11 = "w0\<lparr>trace := [Info Starting, Request BASE_URL]\<rparr>"
  have h11a: "requests_get site_page2_down BASE_URL (logging_info Starting w0) =
      (Inr (Response 200 page1), ?w11)"
    by (simp add: site_page2_down_def demo_site_def w0_def requests_get_def logging_info_def
          BASE_URL_def)
  have h11b: "get_single_page_quotes site_page2_down (BeautifulSoup (content (Response 200 page1)))
      [] ?w11 =
      (Inr ([?qA, ?qB], [(''A'', ?aA), (''B'', ?aB)]),
       w0\<lparr>trace := [Info Starting, Request BASE_URL] @ ?trA @ ?trB\<rparr>)"
    by (simp add: defs)
  have h11c: "crawl_loop site_page2_down
      (select_one (ChildOf ''li'' ''next'' ''a'') (BeautifulSoup (content (Response 200 page1))))
      [?qA, ?qB] [(''A'', ?aA), (''B'', ?aB)]
      (w0\<lparr>trace := [Info Starting, Request BASE_URL] @ ?trA @ ?trB\<rparr>) =
      Some (Inl RequestException,
            w0\<lparr>trace := [Info Starting, Request BASE_URL] @ ?trA @ ?trB @
                          [Info (FetchingPage ?u2), Request ?u2]\<rparr>)"
    by (simp add: defs crawl_loop.simps)
  from t[THEN conjunct2, THEN conjunct2, THEN conjunct2, THEN conjunct2, THEN conjunct2,
      THEN conjunct2, THEN conjunct2, THEN conjunct2, THEN conjunct2, THEN conjunct2,
      THEN conjunct1, rule_format, OF conjI[OF h11a conjI[OF h11b h11c]]]
  have 11: "fst (the (get_all_quotes_and_authors site_page2_down w0)) = Inl RequestException"
    by simp
  have h12: "faults w_open_fails = True # []" by (simp add: w_open_fails_def)
  note 12 = t[THEN conjunct2, THEN conjunct2, THEN conjunct2, THEN conjunct2, THEN conjunct2,
      THEN conjunct2, THEN conjunct2, THEN conjunct2, THEN conjunct2, THEN conjunct2,
      THEN conjunct2, THEN conjunct1, rule_format, OF h12,
      where p = "''quotes.csv''" and f = "''quotes.csv''" and s = "''x''"]
  note t13 = t[THEN conjunct2, THEN conjunct2, THEN conjunct2, THEN conjunct2, THEN conjunct2,
      THEN conjunct2, THEN conjunct2, THEN conjunct2, THEN conjunct2, THEN conjunct2,
      THEN conjunct2, THEN conjunct2]
  have h13: "writerow ''quotes.csv'' [Str ''a''] w_open_fails =
      (Inl OSError, w_open_fails\<lparr>faults := []\<rparr>)"
    by (simp add: io)
  note 13 = t13[THEN conjunct1, rule_format, OF h13, where rows = "[[Str ''b'']]"]
  let ?w14 = "w0\<lparr>faults := [False, True]\<rparr>"
  let ?w14a = "snd (writerow ''quotes.csv'' [Str ''a''] ?w14)"
  have h14a: "writerow ''quotes.csv'' [Str ''a''] ?w14 = (Inr (), ?w14a)"
    by (simp add: io)
  have h14b: "writerows ''quotes.csv'' [[Str ''b'']] ?w14a =
      (Inl OSError, snd (writerows ''quotes.csv'' [[Str ''b'']] ?w14a))"
    by (simp add: io)
  from t13[THEN conjunct2, THEN conjunct1, rule_format, OF conjI[OF h14a h14b]]
  have 14: "fst (writerows ''quotes.csv'' [[Str ''a''], [Str ''b'']] ?w14) = Inl OSError"
    by simp
  note t15 = t13[THEN conjunct2, THEN conjunct2]
  have h15: "open_w ''quotes.csv'' (logging_info (SavingQuotes ''quotes.csv'') w_open_fails) =
      (Inl OSError, w_open_fails\<lparr>trace := [Info (SavingQuotes ''quotes.csv'')], faults := []\<rparr>)"
    by (simp add: io)
  note 15 = t15[THEN conjunct1, rule_format, OF h15, where qs = demo_quotes]
  let ?w16a = "snd (open_w ''quotes.csv'' (logging_info (SavingQuotes ''quotes.csv'') ?w14))"
  have h16a: "open_w ''quotes.csv'' (logging_info (SavingQuotes ''quotes.csv'') ?w14) =
      (Inr ''quotes.csv'', ?w16a)"
    by (simp add: io plain_path_def)
  have h16b: "writerow ''quotes.csv'' [Str ''text'', Str ''author'', Str ''tags''] ?w16a =
      (Inl OSError, snd (writerow ''quotes.csv'' [Str ''text'', Str ''author'', Str ''tags''] ?w16a))"
    by (simp add: io plain_path_def)
  from t15[THEN conjunct2, THEN conjunct1, rule_format, OF conjI[OF h16a h16b],
      where qs = demo_quotes]
  have 16: "fst (save_quotes_to_csv demo_quotes ''quotes.csv'' ?w14) = Inl OSError" by simp
  let ?w17 = "w0\<lparr>faults := [False, False, True]\<rparr>"
  let ?w17a = "snd (open_w ''quotes.csv'' (logging_info (SavingQuotes ''quotes.csv'') ?w17))"
  let ?w17b = "snd (writerow ''quotes.csv'' [Str ''text'', Str ''author'', Str ''tags''] ?w17a)"
  have h17a: "open_w ''quotes.csv'' (logging_info (SavingQuotes ''quotes.csv'') ?w17) =
      (Inr ''quotes.csv'', ?w17a)"
    by (simp add: io plain_path_def)
  have h17b: "writerow ''quotes.csv'' [Str ''text'', Str ''author'', Str ''tags''] ?w17a =
      (Inr (), ?w17b)"
    by (simp add: io plain_path_def)
  have h17c: "writerows ''quotes.csv'' (map quote_row demo_quotes) ?w17b =
      (Inl OSError, snd (writerows ''quotes.csv'' (map quote_row demo_quotes) ?w17b))"
    by (simp add: io plain_path_def)
  from t15[THEN conjunct2, THEN conjunct2, THEN conjunct1, rule_format,
      OF conjI[OF h17a conjI[OF h17b h17c]]]
  have 17: "fst (save_quotes_to_csv demo_quotes ''quotes.csv'' ?w17) = Inl OSError" by simp
  note t18 = t15[THEN conjunct2, THEN conjunct2, THEN conjunct2]
  have h18: "open_w ''authors.csv'' (logging_info (SavingAuthors ''authors.csv'') w_open_fails) =
      (Inl OSError, w_open_fails\<lparr>trace := [Info (SavingAuthors ''authors.csv'')], faults := []\<rparr>)"
    by (simp add: io)
  note 18 = t18[THEN conjunct1, rule_format, OF h18, where reg = demo_registry]
  let ?w19a = "snd (open_w ''authors.csv'' (logging_info (SavingAuthors ''authors.csv'') ?w14))"
  have h19a: "open_w ''authors.csv'' (logging_info (SavingAuthors ''authors.csv'') ?w14) =
      (Inr ''authors.csv'', ?w19a)"
    by (simp add: io plain_path_def)
  have h19b: "writerow ''authors.csv'' [Str ''name'', Str ''bio''] ?w19a =
      (Inl OSError, snd (writerow ''authors.csv'' [Str ''name'', Str ''bio''] ?w19a))"
    by (simp add: io plain_path_def)
  from t18[THEN conjunct2, THEN conjunct1, rule_format, OF conjI[OF h19a h19b],
      where reg = demo_registry]
  have 19: "fst (save_authors_to_csv demo_registry ''authors.csv'' ?w14) = Inl OSError" by simp
  let ?w20a = "snd (open_w ''authors.csv'' (logging_info (SavingAuthors ''authors.csv'') ?w17))"
  let ?w20b = "snd (writerow ''authors.csv'' [Str ''name'', Str ''bio''] ?w20a)"
  have h20a: "open_w ''authors.csv'' (logging_info (SavingAuthors ''authors.csv'') ?w17) =
      (Inr ''authors.csv'', ?w20a)"
    by (simp add: io plain_path_def)
  have h20b: "writerow ''authors.csv'' [Str ''name'', Str ''bio''] ?w20a = (Inr (), ?w20b)"
    by (simp add: io plain_path_def)
  have h20c: "writerows ''authors.csv'' (map (author_row \<circ> snd) demo_registry) ?w20b =
      (Inl OSError, snd (writerows ''authors.csv'' (map (author_row \<circ> snd) demo_registry) ?w20b))"
    by (simp add: io plain_path_def)
  from t18[THEN conjunct2, THEN conjunct2, THEN conjunct1, rule_format,
      OF conjI[OF h20a conjI[OF h20b h20c]]]
  have 20: "fst (save_authors_to_csv demo_registry ''authors.csv'' ?w17) = Inl OSError" by simp
  note t21 = t18[THEN conjunct2, THEN conjunct2, THEN conjunct2]
  from t21[THEN conjunct1, rule_format, OF site_b_down_crawl, where p = "''quotes.csv''"]
  have 21: "main site_b_down ''quotes.csv'' w0 =
     Some (Inl RequestException,
           w0\<lparr>trace := [Info Starting, Request BASE_URL, Info (FetchingBioNew ''A''),
                         Info (FetchingBioFrom (BASE_URL @ ''/author/A'')),
                         Request (BASE_URL @ ''/author/A''), Info (FetchingBioNew ''B''),
                         Info (FetchingBioFrom (BASE_URL @ ''/author/B'')),
                         Request (BASE_URL @ ''/author/B'')]\<rparr>)"
    by simp
  have g22: "get_all_quotes_and_authors demo_site w_open_fails =
      Some (Inr (demo_quotes, demo_registry), w0\<lparr>trace := demo_trace, faults := [True]\<rparr>)"
    unfolding w_open_fails_def by (rule demo_run_faults)
  have s22: "save_quotes_to_csv demo_quotes ''quotes.csv''
      (w0\<lparr>trace := demo_trace, faults := [True]\<rparr>) =
      (Inl OSError, w0\<lparr>trace := demo_trace @ [Info (SavingQuotes ''quotes.csv'')], faults := []\<rparr>)"
    by (simp add: save_quotes_to_csv_def open_w_def next_fault_def logging_info_def)
  from t21[THEN conjunct2, THEN conjunct1, rule_format, OF conjI[OF g22 s22]]
  have 22: "\<exists>w2. main demo_site ''quotes.csv'' w_open_fails = Some (Inl OSError, w2) \<and>
      read_file w2 ''quotes.csv'' = None \<and> read_file w2 ''authors.csv'' = None"
    by (simp add: read_file_def w0_def)
  have g23: "get_all_quotes_and_authors demo_site w_eighth_fails =
      Some (Inr (demo_quotes, demo_registry),
            w0\<lparr>trace := demo_trace,
               faults := [False, False, False, False, False, False, False, True]\<rparr>)"
    unfolding w_eighth_fails_def by (rule demo_run_faults)
  from eighth_fails_quotes_saved[of "''quotes.csv''"] obtain w2 where
    s23: "save_quotes_to_csv demo_quotes ''quotes.csv''
           (w0\<lparr>trace := demo_trace,
               faults := [False, False, False, False, False, False, False, True]\<rparr>) = (Inr (), w2)"
    and f23: "faults w2 = [False, True]" by blast
  from eighth_fails_authors_not_saved[OF f23, of demo_registry OUTPUT_AUTHORS_PATH] obtain w3 where
    a23: "save_authors_to_csv demo_registry OUTPUT_AUTHORS_PATH w2 = (Inl OSError, w3)" by blast
  have p23: "file_of w_eighth_fails ''quotes.csv'' \<noteq> file_of w_eighth_fails OUTPUT_AUTHORS_PATH"
    by (simp add: w_eighth_fails_def w0_def plain_path_def OUTPUT_AUTHORS_PATH_def)
  from t21[THEN conjunct2, THEN conjunct2, THEN conjunct1, rule_format,
      OF conjI[OF g23 conjI[OF s23 a23]]] p23
  have 23: "\<exists>w3. main demo_site ''quotes.csv'' w_eighth_fails = Some (Inl OSError, w3) \<and>
      read_file w3 ''quotes.csv'' =
        Some (csv_row [''text'', ''author'', ''tags''] @
              concat (map (\<lambda>q. csv_row [text q, author q, str_list (tags q)]) demo_quotes))"
    by simp
  note t24 = t21[THEN conjunct2, THEN conjunct2, THEN conjunct2]
  have h24a: "site_b_down BASE_URL = Reply (Response 200 page1)"
    by (simp add: site_b_down_def demo_site_def BASE_URL_def)
  have h24b: "chain_prefix site_b_down
     (select_one (ChildOf ''li'' ''next'' ''a'') (BeautifulSoup (content (Response 200 page1)))) []"
    by simp
  have h24c: "find (names_author ''B'')
      (quote_blocks (BeautifulSoup (content (Response 200 page1)) # map snd [])) = Some ?bB"
    by (simp add: quote_blocks_def BeautifulSoup_def page1_def select_def quote_block_def
          next_nav_def names_author_def parse_single_quote_def select_one_def text_of_def)
  have h24d: "\<forall>resp. site_b_down (BASE_URL @ ''/author/B'') = Reply resp \<longrightarrow>
      select_one (ByClass ''author-title'') (BeautifulSoup (content resp)) = None \<or>
      select_one (ByClass ''author-description'') (BeautifulSoup (content resp)) = None"
    by (simp add: site_b_down_def)
  from h24c h3b h3c h24d have h24e:
    "(\<exists>b\<in>set (quote_blocks (BeautifulSoup (content (Response 200 page1)) # map snd [])).
        malformed_quote b) \<or>
     (\<exists>k b l h.
        find (names_author k)
          (quote_blocks (BeautifulSoup (content (Response 200 page1)) # map snd [])) = Some b \<and>
        select_one (ByName ''a'') b = Some l \<and> getitem l ''href'' = Some h \<and>
        (\<forall>resp. site_b_down (BASE_URL @ h) = Reply resp \<longrightarrow>
           select_one (ByClass ''author-title'') (BeautifulSoup (content resp)) = None \<or>
           select_one (ByClass ''author-description'') (BeautifulSoup (content resp)) = None)) \<or>
     (\<exists>btn.
        next_after (select_one (ChildOf ''li'' ''next'' ''a'')
          (BeautifulSoup (content (Response 200 page1)))) [] = Some btn \<and>
        (\<forall>h. getitem btn ''href'' = Some h \<longrightarrow> site_b_down (BASE_URL @ h) = NoResponse))"
    by blast
  note 24 = t24[THEN conjunct1, rule_format, OF conjI[OF h24a conjI[OF h24b h24e]],
      where p = "''quotes.csv''" and w = w0]
  have h25: "faults w_eighth_fails = replicate 7 False @ True # []"
    by (simp add: w_eighth_fails_def eval_nat_numeral)
  have k25: "7 < length demo_quotes + length demo_registry + 4"
    by (simp add: demo_quotes_def demo_registry_def)
  note 25 = t24[THEN conjunct2, THEN conjunct1, rule_format,
      OF conjI[OF g23 conjI[OF h25 k25]], where p = "''quotes.csv''"]
  from demo_main obtain w4 where m: "main demo_site ''quotes.csv'' w0 = Some (Inr (), w4)"
    by blast
  then have 26: "\<exists>w4. main demo_site ''quotes.csv'' w0 = Some (Inr (), w4)" by blast
  note 27 = t24[THEN conjunct2, THEN conjunct2, rule_format, OF m]
  from 1 2 3 4 5 6 7 8 9 10 11 h12 12 13 14 15 16 17 18 19 20 21 22 p23 23 24 h25 25 26 27
  show ?thesis by (intro conjI) simp_all
qed

text \<open>
  The claim as stated fails when the quotes are written to the file of the authors,
  under the same path or under another path that names the same file: the quotes file
  is complete after the first write, opening the authors file truncates it, and when
  the next write fails the program ends with the file empty.
\<close>

theorem same_path_loses_quotes_counterexample:
  "fst (save_quotes_to_csv demo_quotes OUTPUT_AUTHORS_PATH
          (w_eighth_fails\<lparr>trace := demo_trace\<rparr>)) = Inr () \<and>
   read_file (snd (save_quotes_to_csv demo_quotes OUTPUT_AUTHORS_PATH
          (w_eighth_fails\<lparr>trace := demo_trace\<rparr>))) OUTPUT_AUTHORS_PATH =
     Some (''text,author,tags'' @ [CHR 0x0D, CHR 0x0A] @
           ''q1,A,'' @ [CHR 0x22] @ ''['' @ [CHR 0x27] @ ''x'' @ [CHR 0x27] @ '', '' @
              [CHR 0x27] @ ''y'' @ [CHR 0x27] @ '']'' @ [CHR 0x22, CHR 0x0D, CHR 0x0A] @
           ''q2,B,[]'' @ [CHR 0x0D, CHR 0x0A] @
           ''q3,B,['' @ [CHR 0x27] @ ''z'' @ [CHR 0x27] @ '']'' @ [CHR 0x0D, CHR 0x0A] @
           ''q4,C,[]'' @ [CHR 0x0D, CHR 0x0A]) \<and>
   fst (the (main demo_site OUTPUT_AUTHORS_PATH w_eighth_fails)) = Inl OSError \<and>
   read_file (snd (the (main demo_site OUTPUT_AUTHORS_PATH w_eighth_fails))) OUTPUT_AUTHORS_PATH =
     Some [] \<and>
   ''./authors.csv'' \<noteq> OUTPUT_AUTHORS_PATH \<and>
   file_of w_eighth_fails ''./authors.csv'' = file_of w_eighth_fails OUTPUT_AUTHORS_PATH \<and>
   fst (save_quotes_to_csv demo_quotes ''./authors.csv''
          (w_eighth_fails\<lparr>trace := demo_trace\<rparr>)) = Inr () \<and>
   fst (the (main demo_site ''./authors.csv'' w_eighth_fails)) = Inl OSError \<and>
   read_file (snd (the (main demo_site ''./authors.csv'' w_eighth_fails))) ''./authors.csv'' =
     Some []"
  apply (simp only: main_def w_eighth_fails_def demo_run_faults option.case prod.case sum.case)
  by (simp add: demo_quotes_def demo_registry_def OUTPUT_AUTHORS_PATH_def read_file_def
        plain_path_def w0_def
        save_quotes_to_csv_def save_authors_to_csv_def open_w_def next_fault_def writerow_def
        file_write_def logging_info_def quote_row_def author_row_def csv_row_def csv_field_def
        csv_special_def str_list_def repr_def repr_char_def isprintable_def Let_def)

subsection \<open>C9: registry key and author name\<close>

text \<open>
  Claim C9. After a successful crawl, every registry entry has as its key the text of
  the author element, as it stands there (not trimmed), of the first quote block with
  that author name among the blocks of the listing pages crawled (the base page, then
  the pages of the pagination chain), while the author stored under the key has as its
  name the trimmed title, and as its biography the trimmed description, of the page
  requested at the base URL followed by the first link of that block; the authors file
  is written from the stored name and biography, not from the key. There is a run in
  which a key differs from the name stored under it.
\<close>

theorem registry_key_and_author_name:
  "(\<forall>web w qs reg w' k a.
      get_all_quotes_and_authors web w = Some (Inr (qs, reg), w') \<and> (k, a) \<in> set reg \<longrightarrow>
      (\<exists>resp0 pages b q e l h resp t d.
         web BASE_URL = Reply resp0 \<and>
         pagination_chain web (BeautifulSoup (content resp0)) pages \<and>
         find (names_author k) (quote_blocks (BeautifulSoup (content resp0) # map snd pages)) = Some b \<and>
         q \<in> set qs \<and> parse_single_quote b = Inr q \<and>
         select_one (ByClass ''author'') b = Some e \<and> k = text_of e \<and>
         select_one (ByName ''a'') b = Some l \<and> getitem l ''href'' = Some h \<and>
         web (BASE_URL @ h) = Reply resp \<and>
         select_one (ByClass ''author-title'') (BeautifulSoup (content resp)) = Some t \<and>
         select_one (ByClass ''author-description'') (BeautifulSoup (content resp)) = Some d \<and>
         a = \<lparr>name = strip (text_of t), bio = strip (text_of d)\<rparr>))
   \<and> (\<forall>reg p w' w''. save_authors_to_csv reg p w' = (Inr (), w'') \<longrightarrow>
         read_file w'' p = Some (csv_row [''name'', ''bio''] @
                                concat (map (\<lambda>(k, a). csv_row [name a, bio a]) reg)))
   \<and> (\<exists>web w qs reg w' k a.
         get_all_quotes_and_authors web w = Some (Inr (qs, reg), w') \<and> (k, a) \<in> set reg \<and>
         k \<noteq> name a)"
proof (intro conjI impI allI)
  fix web :: site and w qs reg w' k a
  let ?R = "\<lambda>b (a :: Author). \<exists>l h resp t d.
         select_one (ByName ''a'') b = Some l \<and> getitem l ''href'' = Some h \<and>
         web (BASE_URL @ h) = Reply resp \<and>
         select_one (ByClass ''author-title'') (BeautifulSoup (content resp)) = Some t \<and>
         select_one (ByClass ''author-description'') (BeautifulSoup (content resp)) = Some d \<and>
         a = \<lparr>name = strip (text_of t), bio = strip (text_of d)\<rparr>"
  assume a: "get_all_quotes_and_authors web w = Some (Inr (qs, reg), w') \<and> (k, a) \<in> set reg"
  then have run: "get_all_quotes_and_authors web w = Some (Inr (qs, reg), w')" by simp
  have "\<exists>resp0 pages. web BASE_URL = Reply resp0 \<and>
           pagination_chain web (BeautifulSoup (content resp0)) pages \<and>
           (\<forall>x\<in>set reg. \<exists>b. find (names_author (fst x))
               (quote_blocks (BeautifulSoup (content resp0) # map snd pages)) = Some b \<and> ?R b (snd x)) \<and>
           set (map fst reg) =
             {k. \<exists>b\<in>set (quote_blocks (BeautifulSoup (content resp0) # map snd pages)). names_author k b}"
  proof (rule get_all_first_blocks[where R = ?R, OF run])
    fix b q l h au wa wb
    assume "select_one (ByName ''a'') b = Some l" "getitem l ''href'' = Some h"
      "parse_author_bio web h wa = (Inr au, wb)"
    with parse_author_bio_Inr[of web h wa au wb] show "?R b au" by auto
  qed
  then obtain resp0 pages where
    base: "web BASE_URL = Reply resp0"
    and chain: "pagination_chain web (BeautifulSoup (content resp0)) pages"
    and inv: "\<forall>x\<in>set reg. \<exists>b. find (names_author (fst x))
               (quote_blocks (BeautifulSoup (content resp0) # map snd pages)) = Some b \<and> ?R b (snd x)"
    by blast
  from inv a obtain b where
    f: "find (names_author k) (quote_blocks (BeautifulSoup (content resp0) # map snd pages)) = Some b"
    and r: "?R b a" by force
  from find_Some_set[OF f] have
    m: "b \<in> set (quote_blocks (BeautifulSoup (content resp0) # map snd pages))"
    and n: "names_author k b" by simp_all
  from n obtain q where q: "parse_single_quote b = Inr q" "author q = k"
    by (auto simp: names_author_def split: sum.splits)
  from parse_single_quote_Inr[OF q(1)] q(2) obtain e where
    e: "select_one (ByClass ''author'') b = Some e" "k = text_of e" by auto
  from m have "parse_single_quote b \<in> set (map parse_single_quote
      (quote_blocks (BeautifulSoup (content resp0) # map snd pages)))" by simp
  then have "parse_single_quote b \<in> set (map Inr qs)"
    by (simp only: get_all_quotes_blocks[OF run base chain])
  with q(1) have qq: "q \<in> set qs" by auto
  from r obtain l h resp t d where
    r': "select_one (ByName ''a'') b = Some l" "getitem l ''href'' = Some h"
      "web (BASE_URL @ h) = Reply resp"
      "select_one (ByClass ''author-title'') (BeautifulSoup (content resp)) = Some t"
      "select_one (ByClass ''author-description'') (BeautifulSoup (content resp)) = Some d"
      "a = \<lparr>name = strip (text_of t), bio = strip (text_of d)\<rparr>" by blast
  from base chain f qq q(1) e r'
  show "\<exists>resp0 pages b q e l h resp t d.
         web BASE_URL = Reply resp0 \<and>
         pagination_chain web (BeautifulSoup (content resp0)) pages \<and>
         find (names_author k) (quote_blocks (BeautifulSoup (content resp0) # map snd pages)) = Some b \<and>
         q \<in> set qs \<and> parse_single_quote b = Inr q \<and>
         select_one (ByClass ''author'') b = Some e \<and> k = text_of e \<and>
         select_one (ByName ''a'') b = Some l \<and> getitem l ''href'' = Some h \<and>
         web (BASE_URL @ h) = Reply resp \<and>
         select_one (ByClass ''author-title'') (BeautifulSoup (content resp)) = Some t \<and>
         select_one (ByClass ''author-description'') (BeautifulSoup (content resp)) = Some d \<and>
         a = \<lparr>name = strip (text_of t), bio = strip (text_of d)\<rparr>"
    by (intro exI[of _ resp0] exI[of _ pages] exI[of _ b] exI[of _ q] exI[of _ e] exI[of _ l]
          exI[of _ h] exI[of _ resp] exI[of _ t] exI[of _ d]) simp
next
  fix reg p w' w''
  assume "save_authors_to_csv reg p w' = (Inr (), w'')"
  then show "read_file w'' p = Some (csv_row [''name'', ''bio''] @
                            concat (map (\<lambda>(k, a). csv_row [name a, bio a]) reg))"
    by (cases rule: save_authors_to_csv_cases)
       (simp_all add: csv_text_def author_row_def comp_def split_def read_file_def)
next
  show "\<exists>web w qs reg w' k a.
         get_all_quotes_and_authors web w = Some (Inr (qs, reg), w') \<and> (k, a) \<in> set reg \<and>
         k \<noteq> name a"
    using demo_run
    by (intro exI[of _ demo_site] exI[of _ w0] exI[of _ demo_quotes] exI[of _ demo_registry]
          exI[of _ "w0\<lparr>trace := demo_trace\<rparr>"] exI[of _ "''A''"]
          exI[of _ "\<lparr>name = ''A.'', bio = ''bio of A''\<rparr>"])
       (simp add: demo_registry_def)
qed

theorem registry_key_and_author_name_witness:
  "get_all_quotes_and_authors demo_site w0 =
     Some (Inr (demo_quotes, demo_registry), w0\<lparr>trace := demo_trace\<rparr>) \<and>
   (''C'', \<lparr>name = ''C'', bio = ''bio of C''\<rparr>) \<in> set demo_registry \<and>
   (\<exists>resp0 pages b q e l h resp t d.
      demo_site BASE_URL = Reply resp0 \<and>
      pagination_chain demo_site (BeautifulSoup (content resp0)) pages \<and>
      find (names_author ''C'') (quote_blocks (BeautifulSoup (content resp0) # map snd pages)) = Some b \<and>
      q \<in> set demo_quotes \<and> parse_single_quote b = Inr q \<and>
      select_one (ByClass ''author'') b = Some e \<and> ''C'' = text_of e \<and>
      select_one (ByName ''a'') b = Some l \<and> getitem l ''href'' = Some h \<and>
      demo_site (BASE_URL @ h) = Reply resp \<and>
      select_one (ByClass ''author-title'') (BeautifulSoup (content resp)) = Some t \<and>
      select_one (ByClass ''author-description'') (BeautifulSoup (content resp)) = Some d \<and>
      \<lparr>name = ''C'', bio = ''bio of C''\<rparr> = \<lparr>name = strip (text_of t), bio = strip (text_of d)\<rparr>) \<and>
   demo_site BASE_URL = Reply (Response 200 page1) \<and>
   pagination_chain demo_site (BeautifulSoup (content (Response 200 page1)))
     [(BASE_URL @ ''/page/2/'', BeautifulSoup page2)] \<and>
   find (names_author ''C'')
     (quote_blocks (BeautifulSoup (content (Response 200 page1)) #
        map snd [(BASE_URL @ ''/page/2/'', BeautifulSoup page2)])) =
     Some (quote_block ''q4'' ''C'' ''/author/C'' []) \<and>
   (\<exists>w''. save_authors_to_csv demo_registry ''./authors.csv'' (w0\<lparr>trace := demo_trace\<rparr>) = (Inr (), w'') \<and>
      read_file w'' ''./authors.csv'' =
        Some (csv_row [''name'', ''bio''] @
              concat (map (\<lambda>(k, a). csv_row [name a, bio a]) demo_registry)))"
proof -
  note t = registry_key_and_author_name
  have m: "(''C'', \<lparr>name = ''C'', bio = ''bio of C''\<rparr>) \<in> set demo_registry"
    by (simp add: demo_registry_def)
  note 1 = t[THEN conjunct1, rule_format, where web = demo_site and w = w0,
      OF conjI[OF demo_run m]]
  have 2: "demo_site BASE_URL = Reply (Response 200 page1)"
    by (simp add: demo_site_def BASE_URL_def)
  have 3: "pagination_chain demo_site (BeautifulSoup (content (Response 200 page1)))
     [(BASE_URL @ ''/page/2/'', BeautifulSoup page2)]"
    by (simp add: pagination_chain_def BeautifulSoup_def page1_def page2_def select_one_def
          select_def quote_block_def next_nav_def getitem_def demo_site_def BASE_URL_def)
  have 4: "find (names_author ''C'')
     (quote_blocks (BeautifulSoup (content (Response 200 page1)) #
        map snd [(BASE_URL @ ''/page/2/'', BeautifulSoup page2)])) =
     Some (quote_block ''q4'' ''C'' ''/author/C'' [])"
    by (simp add: quote_blocks_def BeautifulSoup_def page1_def page2_def select_def
          quote_block_def next_nav_def names_author_def parse_single_quote_def select_one_def
          text_of_def)
  have "faults (w0\<lparr>trace := demo_trace\<rparr>) = []" by (simp add: w0_def)
  from save_authors_to_csv_no_fault[OF this, of demo_registry "''./authors.csv''"]
  obtain w'' where
    s: "save_authors_to_csv demo_registry ''./authors.csv'' (w0\<lparr>trace := demo_trace\<rparr>) = (Inr (), w'')"
    by blast
  from t[THEN conjunct2, THEN conjunct1, rule_format, OF s] s
  have 5: "\<exists>w''. save_authors_to_csv demo_registry ''./authors.csv'' (w0\<lparr>trace := demo_trace\<rparr>)
        = (Inr (), w'') \<and>
      read_file w'' ''./authors.csv'' =
        Some (csv_row [''name'', ''bio''] @
              concat (map (\<lambda>(k, a). csv_row [name a, bio a]) demo_registry))"
    by blast
  from demo_run m 1 2 3 4 5 show ?thesis by (intro conjI)
qed

subsection \<open>C10: the order of the authors file\<close>

text \<open>
  Claim C10. Whenever the program succeeds, the keys of the registry are the author
  names of the crawled quotes (page order, then in-page order) in the order of their
  first occurrence, and the authors file holds the header row followed by one row per
  registry entry, in that order.
\<close>

theorem authors_rows_in_encounter_order:
  assumes "main web p w = Some (Inr (), w')"
  shows "\<exists>qs reg w1. get_all_quotes_and_authors web w = Some (Inr (qs, reg), w1) \<and>
           map fst reg = encounter_order [] (map author qs) \<and>
           map fst reg = rev (remdups (rev (map author qs))) \<and>
           read_file w' OUTPUT_AUTHORS_PATH =
             Some (csv_row [''name'', ''bio''] @
                   concat (map (\<lambda>(k, a). csv_row [name a, bio a]) reg))"
  using assms
proof (cases rule: main_cases)
  case (ok qs reg w1 w2 w3)
  from ok(3) have "read_file w3 OUTPUT_AUTHORS_PATH =
      Some (csv_row [''name'', ''bio''] @ concat (map (\<lambda>(k, a). csv_row [name a, bio a]) reg))"
    by (cases rule: save_authors_to_csv_cases)
       (simp_all add: csv_text_def author_row_def comp_def split_def read_file_def)
  with ok(1,5) get_all_keys[OF ok(1)] show ?thesis
    by (intro exI[of _ qs] exI[of _ reg] exI[of _ w1]) (simp add: encounter_order_remdups)
qed simp_all

theorem authors_rows_in_encounter_order_witness:
  "\<exists>w' qs reg w1. main demo_site ''quotes.csv'' w0 = Some (Inr (), w') \<and>
      get_all_quotes_and_authors demo_site w0 = Some (Inr (qs, reg), w1) \<and>
      map author qs = [''A'', ''B'', ''B'', ''C''] \<and> map fst reg = [''A'', ''B'', ''C''] \<and>
      read_file w' OUTPUT_AUTHORS_PATH =
        Some (''name,bio'' @ [CHR 0x0D, CHR 0x0A] @ ''A.,bio of A'' @ [CHR 0x0D, CHR 0x0A] @
              ''B,bio of B'' @ [CHR 0x0D, CHR 0x0A] @ ''C,bio of C'' @ [CHR 0x0D, CHR 0x0A])"
proof -
  from demo_main obtain w' where m: "main demo_site ''quotes.csv'' w0 = Some (Inr (), w')"
    and f: "read_file w' ''authors.csv'' =
       Some (''name,bio'' @ [CHR 0x0D, CHR 0x0A] @ ''A.,bio of A'' @ [CHR 0x0D, CHR 0x0A] @
             ''B,bio of B'' @ [CHR 0x0D, CHR 0x0A] @ ''C,bio of C'' @ [CHR 0x0D, CHR 0x0A])"
    by blast
  from authors_rows_in_encounter_order[OF m] demo_run
  have "map fst demo_registry = encounter_order [] (map author demo_quotes)" by auto
  with m f demo_run show ?thesis
    by (intro exI[of _ w'] exI[of _ demo_quotes] exI[of _ demo_registry]
          exI[of _ "w0\<lparr>trace := demo_trace\<rparr>"])
       (simp add: demo_quotes_def demo_registry_def OUTPUT_AUTHORS_PATH_def)
qed

end
